theory Spec2Isabelle
  imports Complex_Main "HOL-Library.Sublist"
begin

section \<open>Python strings\<close>

text \<open>
  A Python \<open>str\<close> is a sequence of Unicode code points, and \<open>len\<close>, slicing,
  \<open>strip\<close> and the regular expressions of \<open>re\<close> all count code points. A string is
  therefore a list of code points (natural numbers); \<open>ustr\<close> reads an ASCII literal.
\<close>

type_synonym pystr = "nat list"

definition ustr :: "string \<Rightarrow> pystr" where
  "ustr s = map of_char s"

text \<open>
  \<open>str.isspace\<close> of one character, which is also the set \<open>str.strip()\<close> removes:
  the ASCII whitespace \<open>\t \n \v \f \r\<close>, the separators U+001C..U+001F, the space, and the
  Unicode whitespace U+0085, U+00A0, U+1680, U+2000..U+200A, U+2028, U+2029, U+202F,
  U+205F and U+3000.
\<close>

definition py_isspace :: "nat \<Rightarrow> bool" where
  "py_isspace c \<longleftrightarrow> (9 \<le> c \<and> c \<le> 13) \<or> (28 \<le> c \<and> c \<le> 32) \<or> c = 0x85 \<or> c = 0xA0
     \<or> c = 0x1680 \<or> (0x2000 \<le> c \<and> c \<le> 0x200A) \<or> c = 0x2028 \<or> c = 0x2029
     \<or> c = 0x202F \<or> c = 0x205F \<or> c = 0x3000"

text \<open>\<open>s.strip()\<close>: whitespace removed at both ends.\<close>

definition py_strip :: "pystr \<Rightarrow> pystr" where
  "py_strip s = rev (dropWhile py_isspace (rev (dropWhile py_isspace s)))"

text \<open>\<open>str(n)\<close> of a non-negative integer: its decimal digits.\<close>

fun str_nat :: "nat \<Rightarrow> pystr" where
  "str_nat n = (if n < 10 then [48 + n] else str_nat (n div 10) @ [48 + n mod 10])"

declare str_nat.simps [simp del]

text \<open>
  \<open>s.lower()\<close> is only ever compared with \<open>"exit"\<close>. The upper-case ASCII letters are the
  only code points whose lower case is one of \<open>e\<close>, \<open>x\<close>, \<open>i\<close>, \<open>t\<close> (U+0130 lowers to two
  code points), so the comparison is decided by the ASCII case mapping.
\<close>

definition ascii_lower :: "nat \<Rightarrow> nat" where
  "ascii_lower c = (if 65 \<le> c \<and> c \<le> 90 then c + 32 else c)"

definition lower_is_exit :: "pystr \<Rightarrow> bool" where
  "lower_is_exit user_input \<longleftrightarrow> map ascii_lower user_input = ustr ''exit''"

text \<open>
  A code point U+D800..U+DFFF on its own (a lone surrogate) is a character of a Python
  \<open>str\<close> that UTF-8 cannot encode: \<open>print\<close> on a UTF-8 standard output, and a Streamlit call
  that sends the text to the browser, raise an exception on it.
\<close>

definition has_surrogate :: "pystr \<Rightarrow> bool" where
  "has_surrogate t = list_ex (\<lambda>c. 0xD800 \<le> c \<and> c \<le> 0xDFFF) t"

section \<open>Response Normalizer: the cleaning step\<close>

text \<open>
  \<open>re.sub(r"```json|```", "", raw_text)\<close>: the text is scanned from the left; at each
  position the alternatives are tried in order, a match is removed and the scan goes on
  after it; a character where nothing matches is kept.
\<close>

definition fence :: pystr where
  "fence = ustr ''```''"

definition fence_json :: pystr where
  "fence_json = ustr ''```json''"

fun re_sub_fences :: "pystr \<Rightarrow> pystr" where
  "re_sub_fences [] = []"
| "re_sub_fences (c # cs) =
     (if prefix fence_json (c # cs) then re_sub_fences (drop 7 (c # cs))
      else if prefix fence (c # cs) then re_sub_fences (drop 3 (c # cs))
      else c # re_sub_fences cs)"

declare re_sub_fences.simps(2) [simp del]

text \<open>\<open>clean_text = re.sub(r"```json|```", "", raw_text).strip()\<close>, in both front ends.\<close>

definition clean_text :: "pystr \<Rightarrow> pystr" where
  "clean_text raw_text = py_strip (re_sub_fences raw_text)"

section \<open>The JSON decoder called by the normalizer\<close>

text \<open>
  \<open>json.loads\<close> with its default arguments, as the standard library's decoder (module
  \<open>json.decoder\<close> with the scanner of \<open>json.scanner\<close>, in the strictness of the C
  accelerator CPython uses) implements it. An integer is unbounded. A float literal is
  kept as the exact decimal \<open>m * 10^e\<close> it denotes (\<open>JFloat m e\<close>): binary rounding is not
  modelled, so two values equal here are equal floats. A \<open>dict\<close> is an association list in
  insertion order.
\<close>

datatype json =
    JNull
  | JBool bool
  | JInt int
  | JFloat int int
  | JNaN
  | JInfinity bool
  | JStr pystr
  | JArr "json list"
  | JObj "(pystr \<times> json) list"

definition json_ws :: "nat \<Rightarrow> bool" where
  "json_ws c \<longleftrightarrow> c = 32 \<or> c = 9 \<or> c = 10 \<or> c = 13"

definition skip_ws :: "pystr \<Rightarrow> pystr" where
  "skip_ws s = dropWhile json_ws s"

definition is_digit :: "nat \<Rightarrow> bool" where
  "is_digit c \<longleftrightarrow> 48 \<le> c \<and> c \<le> 57"

definition digits_value :: "pystr \<Rightarrow> nat" where
  "digits_value ds = foldl (\<lambda>a d. 10 * a + (d - 48)) 0 ds"

definition hex_value :: "nat \<Rightarrow> nat option" where
  "hex_value c =
     (if 48 \<le> c \<and> c \<le> 57 then Some (c - 48)
      else if 97 \<le> c \<and> c \<le> 102 then Some (c - 87)
      else if 65 \<le> c \<and> c \<le> 70 then Some (c - 55)
      else None)"

definition decode_uXXXX :: "pystr \<Rightarrow> (nat \<times> pystr) option" where
  "decode_uXXXX s =
     (case s of
        a # b # c # d # r \<Rightarrow>
          (case (hex_value a, hex_value b, hex_value c, hex_value d) of
             (Some x, Some y, Some z, Some w) \<Rightarrow> Some (((x * 16 + y) * 16 + z) * 16 + w, r)
           | _ \<Rightarrow> None)
      | _ \<Rightarrow> None)"

definition BACKSLASH :: "nat \<Rightarrow> nat option" where
  "BACKSLASH e =
     (if e = 34 \<or> e = 92 \<or> e = 47 then Some e
      else if e = 98 then Some 8
      else if e = 102 then Some 12
      else if e = 110 then Some 10
      else if e = 114 then Some 13
      else if e = 116 then Some 9
      else None)"

definition cons_chunk :: "nat \<Rightarrow> (pystr \<times> pystr) option \<Rightarrow> (pystr \<times> pystr) option" where
  "cons_chunk c res = map_option (\<lambda>(t, r). (c # t, r)) res"

function scanstring :: "pystr \<Rightarrow> (pystr \<times> pystr) option" where
  "scanstring s =
     (case s of
        [] \<Rightarrow> None
      | c # cs \<Rightarrow>
          if c = 34 then Some ([], cs)
          else if c = 92 then
            (case cs of
               [] \<Rightarrow> None
             | e # r \<Rightarrow>
                 if e = 117 then
                   (case decode_uXXXX r of
                      None \<Rightarrow> None
                    | Some (uni, r1) \<Rightarrow>
                        if 0xD800 \<le> uni \<and> uni \<le> 0xDBFF \<and> take 2 r1 = [92, 117] then
                          (case decode_uXXXX (drop 2 r1) of
                             None \<Rightarrow> None
                           | Some (uni2, r2) \<Rightarrow>
                               if 0xDC00 \<le> uni2 \<and> uni2 \<le> 0xDFFF
                               then cons_chunk (0x10000 + (uni - 0xD800) * 1024 + (uni2 - 0xDC00))
                                      (scanstring (drop 6 r1))
                               else cons_chunk uni (scanstring r1))
                        else cons_chunk uni (scanstring r1))
                 else
                   (case BACKSLASH e of
                      None \<Rightarrow> None
                    | Some ch \<Rightarrow> cons_chunk ch (scanstring r)))
          else if c < 32 then None
          else cons_chunk c (scanstring cs))"
  by pat_completeness auto
termination
  by (relation "measure length") (auto simp: decode_uXXXX_def split: list.splits option.splits)

declare scanstring.simps [simp del]

lemma scanstring_Nil: "scanstring [] = None"
  by (simp add: scanstring.simps)

lemma scanstring_quote: "scanstring (34 # cs) = Some ([], cs)"
  by (simp add: scanstring.simps)

lemma scanstring_plain:
  "c \<noteq> 34 \<Longrightarrow> c \<noteq> 92 \<Longrightarrow>
   scanstring (c # cs) = (if c < 32 then None else cons_chunk c (scanstring cs))"
  by (simp add: scanstring.simps[of "c # cs"])

lemma scanstring_backslash_end: "scanstring [92] = None"
  by (simp add: scanstring.simps[of "[92]"])

lemma scanstring_escape:
  "e \<noteq> 117 \<Longrightarrow>
   scanstring (92 # e # r) =
     (case BACKSLASH e of None \<Rightarrow> None | Some ch \<Rightarrow> cons_chunk ch (scanstring r))"
  by (simp add: scanstring.simps[of "92 # e # r"])

lemma scanstring_unicode:
  "scanstring (92 # 117 # r) =
     (case decode_uXXXX r of
        None \<Rightarrow> None
      | Some (uni, r1) \<Rightarrow>
          if 0xD800 \<le> uni \<and> uni \<le> 0xDBFF \<and> take 2 r1 = [92, 117] then
            (case decode_uXXXX (drop 2 r1) of
               None \<Rightarrow> None
             | Some (uni2, r2) \<Rightarrow>
                 if 0xDC00 \<le> uni2 \<and> uni2 \<le> 0xDFFF
                 then cons_chunk (0x10000 + (uni - 0xD800) * 1024 + (uni2 - 0xDC00))
                        (scanstring (drop 6 r1))
                 else cons_chunk uni (scanstring r1))
          else cons_chunk uni (scanstring r1))"
  by (simp add: scanstring.simps[of "92 # 117 # r"])

lemma cons_chunk_Some:
  "cons_chunk c res = Some (t, r) \<longleftrightarrow> (\<exists>t'. res = Some (t', r) \<and> t = c # t')"
  by (cases res) (auto simp: cons_chunk_def)

lemma decode_uXXXX_length: "decode_uXXXX s = Some (u, r) \<Longrightarrow> length s = length r + 4"
  by (auto simp: decode_uXXXX_def split: list.splits option.splits)

lemma scanstring_shorter: "scanstring s = Some (t, r) \<Longrightarrow> length r < length s"
proof (induction "length s" arbitrary: s t r rule: less_induct)
  case less
  note IH = less.hyps
  show ?case
  proof (cases s)
    case Nil
    with less.prems show ?thesis by (simp add: scanstring_Nil)
  next
    case (Cons c cs)
    consider (quote) "c = 34" | (esc) "c = 92" | (plain) "c \<noteq> 34" "c \<noteq> 92" by blast
    then show ?thesis
    proof cases
      case quote
      with less.prems Cons show ?thesis by (simp add: scanstring_quote)
    next
      case plain
      with less.prems Cons obtain t' where "scanstring cs = Some (t', r)"
        by (auto simp: scanstring_plain simp: cons_chunk_Some split: if_splits)
      from IH[OF _ this] Cons show ?thesis by simp
    next
      case esc
      show ?thesis
      proof (cases cs)
        case Nil
        with less.prems Cons esc show ?thesis by (simp add: scanstring_backslash_end)
      next
        case c2: (Cons e r0)
        show ?thesis
        proof (cases "e = 117")
          case False
          with less.prems Cons esc c2 obtain t' where "scanstring r0 = Some (t', r)"
            by (auto simp: scanstring_escape simp: cons_chunk_Some split: option.splits)
          from IH[OF _ this] Cons c2 show ?thesis by simp
        next
          case True
          from less.prems Cons esc c2 True obtain uni r1 where
            d: "decode_uXXXX r0 = Some (uni, r1)"
            by (auto simp: scanstring_unicode split: option.splits)
          from decode_uXXXX_length[OF d] have l1: "length r0 = length r1 + 4" .
          from less.prems Cons esc c2 True d
          have "(\<exists>t'. scanstring r1 = Some (t', r)) \<or> (\<exists>t'. scanstring (drop 6 r1) = Some (t', r))"
            by (auto simp: scanstring_unicode simp: cons_chunk_Some split: option.splits if_splits)
          then show ?thesis
          proof
            assume "\<exists>t'. scanstring r1 = Some (t', r)"
            then obtain t' where "scanstring r1 = Some (t', r)" ..
            from IH[OF _ this] Cons c2 l1 show ?thesis by simp
          next
            assume "\<exists>t'. scanstring (drop 6 r1) = Some (t', r)"
            then obtain t' where sc: "scanstring (drop 6 r1) = Some (t', r)" ..
            have lt: "length (drop 6 r1) < length s" using Cons c2 l1 by simp
            from IH[OF lt sc] lt show ?thesis by linarith
          qed
        qed
      qed
    qed
  qed
qed



definition match_int_part :: "pystr \<Rightarrow> (pystr \<times> pystr) option" where
  "match_int_part s =
     (case s of
        [] \<Rightarrow> None
      | d # r \<Rightarrow>
          if d = 48 then Some ([d], r)
          else if 49 \<le> d \<and> d \<le> 57 then Some (d # takeWhile is_digit r, dropWhile is_digit r)
          else None)"

definition match_frac :: "pystr \<Rightarrow> (pystr \<times> pystr) option" where
  "match_frac s =
     (case s of
        dot # d # r \<Rightarrow>
          if dot = 46 \<and> is_digit d then Some (d # takeWhile is_digit r, dropWhile is_digit r)
          else None
      | _ \<Rightarrow> None)"

definition match_exp :: "pystr \<Rightarrow> (int \<times> pystr) option" where
  "match_exp s =
     (case s of
        [] \<Rightarrow> None
      | e # r \<Rightarrow>
          if e = 101 \<or> e = 69 then
            (case r of
               [] \<Rightarrow> None
             | sg # r1 \<Rightarrow>
                 if sg = 43 \<or> sg = 45 then
                   (case r1 of
                      [] \<Rightarrow> None
                    | d # r2 \<Rightarrow>
                        if is_digit d
                        then Some ((if sg = 45 then - 1 else 1) * int (digits_value (takeWhile is_digit r1)),
                                   dropWhile is_digit r1)
                        else None)
                 else if is_digit sg
                 then Some (int (digits_value (takeWhile is_digit r)), dropWhile is_digit r)
                 else None)
          else None)"

definition match_number :: "pystr \<Rightarrow> (json \<times> pystr) option" where
  "match_number s =
     (let (neg, s1) = (case s of [] \<Rightarrow> (False, s) | c # r \<Rightarrow> if c = 45 then (True, r) else (False, s));
          sgn = (if neg then - 1 else 1 :: int)
      in case match_int_part s1 of
           None \<Rightarrow> None
         | Some (ip, r1) \<Rightarrow>
             (case match_frac r1 of
                None \<Rightarrow>
                  (case match_exp r1 of
                     None \<Rightarrow> Some (JInt (sgn * int (digits_value ip)), r1)
                   | Some (ex, r3) \<Rightarrow> Some (JFloat (sgn * int (digits_value ip)) ex, r3))
              | Some (fp, r2) \<Rightarrow>
                  (case match_exp r2 of
                     None \<Rightarrow> Some (JFloat (sgn * int (digits_value (ip @ fp))) (- int (length fp)), r2)
                   | Some (ex, r3) \<Rightarrow>
                       Some (JFloat (sgn * int (digits_value (ip @ fp))) (ex - int (length fp)), r3))))"

definition scan_constant :: "pystr \<Rightarrow> (json \<times> pystr) option" where
  "scan_constant s =
     (if prefix (ustr ''NaN'') s then Some (JNaN, drop 3 s)
      else if prefix (ustr ''Infinity'') s then Some (JInfinity False, drop 8 s)
      else if prefix (ustr ''-Infinity'') s then Some (JInfinity True, drop 9 s)
      else None)"

fun dict_setitem :: "(pystr \<times> json) list \<Rightarrow> pystr \<Rightarrow> json \<Rightarrow> (pystr \<times> json) list" where
  "dict_setitem [] k v = [(k, v)]"
| "dict_setitem ((k', v') # d) k v = (if k' = k then (k', v) # d else (k', v') # dict_setitem d k v)"

definition dict :: "(pystr \<times> json) list \<Rightarrow> (pystr \<times> json) list" where
  "dict pairs = foldl (\<lambda>d (k, v). dict_setitem d k v) [] pairs"

text \<open>
  \<open>dict(pairs)\<close>: a repeated key keeps its first position and takes the last value.
\<close>

text \<open>
  A call of \<open>json.loads\<close> ends in one of three ways. It returns the decoded value; it
  raises \<open>json.JSONDecodeError\<close> at the first place where the text is not JSON; or it raises
  another exception on the way: \<open>RecursionError\<close> when it is about to enter an array or an
  object nested deeper than the interpreter's recursion limit leaves room for, and
  \<open>ValueError\<close> when \<open>int\<close> is given an integer literal with more digits than
  \<open>sys.get_int_max_str_digits()\<close> (the sign is not counted; 0 switches the limit off).
  Whichever comes first in the text decides. The limits belong to the interpreter that
  runs the program: \<open>recursion_depth\<close> is the number of nested arrays and objects the
  decoder can enter when it is called, \<open>int_max_str_digits\<close> the digit limit of \<open>int\<close>, and
  \<open>encoder_depth\<close> the deepest nesting of a value that \<open>json.dumps(obj, indent=4)\<close> still
  encodes.
\<close>

record interpreter =
  recursion_depth :: nat
  int_max_str_digits :: nat
  encoder_depth :: nat

datatype py_exception =
    RecursionError_array
  | RecursionError_object
  | ValueError_int_digits nat nat

datatype 'a outcome = Returns 'a | JSONDecodeError | Raises py_exception

text \<open>\<open>str(e)\<close> of these exceptions.\<close>

fun exception_str :: "py_exception \<Rightarrow> pystr" where
  "exception_str RecursionError_array =
     ustr ''maximum recursion depth exceeded while decoding a JSON array from a unicode string''"
| "exception_str RecursionError_object =
     ustr ''maximum recursion depth exceeded while decoding a JSON object from a unicode string''"
| "exception_str (ValueError_int_digits limit n) =
     ustr ''Exceeds the limit ('' @ str_nat limit @
     ustr '' digits) for integer string conversion: value has '' @ str_nat n @
     ustr '' digits; use sys.set_int_max_str_digits() to increase the limit''"

text \<open>CPython's defaults: a recursion limit of 1000, which bounds what is left of it when
  the decoder or the encoder is called, and 4300 digits.\<close>

definition default_limits :: interpreter where
  "default_limits = \<lparr>recursion_depth = 1000, int_max_str_digits = 4300, encoder_depth = 1000\<rparr>"

definition of_option :: "'a option \<Rightarrow> 'a outcome" where
  "of_option x = (case x of None \<Rightarrow> JSONDecodeError | Some a \<Rightarrow> Returns a)"

text \<open>The number at the start of \<open>s\<close>, or one of the constants \<open>NaN\<close>, \<open>Infinity\<close>,
  \<open>-Infinity\<close>. An integer literal goes through \<open>int\<close>, which counts its digits: all of
  the matched text but the sign.\<close>

definition int_digits :: "pystr \<Rightarrow> pystr \<Rightarrow> nat" where
  "int_digits s r = length s - length r - (if hd s = 45 then 1 else 0)"

definition is_JInt :: "json \<Rightarrow> bool" where
  "is_JInt v = (case v of JInt i \<Rightarrow> True | _ \<Rightarrow> False)"

definition scan_number :: "nat \<Rightarrow> pystr \<Rightarrow> (json \<times> pystr) outcome" where
  "scan_number max_digits s =
     (case match_number s of
        Some (v, r) \<Rightarrow>
          if is_JInt v \<and> 0 < max_digits \<and> max_digits < int_digits s r
          then Raises (ValueError_int_digits max_digits (int_digits s r))
          else Returns (v, r)
      | None \<Rightarrow> of_option (scan_constant s))"

lemma skip_ws_Cons_shorter: "skip_ws s = d # ds \<Longrightarrow> length ds < length s"
proof -
  assume a: "skip_ws s = d # ds"
  have "length (skip_ws s) \<le> length s"
    unfolding skip_ws_def by (rule length_dropWhile_le)
  with a show ?thesis by simp
qed

lemma skip_ws_shorter: "length x < n \<Longrightarrow> length (skip_ws x) < n"
  unfolding skip_ws_def using length_dropWhile_le[of json_ws x] by simp

lemma skip_ws_shorter2: "length x < n \<Longrightarrow> 2 * length (skip_ws x) < Suc (2 * n)"
  using skip_ws_shorter[of x n] by simp

function scan_once :: "nat \<Rightarrow> nat \<Rightarrow> pystr \<Rightarrow> (json \<times> pystr) outcome"
  and JSONArray :: "nat \<Rightarrow> nat \<Rightarrow> pystr \<Rightarrow> (json list \<times> pystr) outcome"
  and JSONObject :: "nat \<Rightarrow> nat \<Rightarrow> pystr \<Rightarrow> ((pystr \<times> json) list \<times> pystr) outcome"
where
  "scan_once max_digits depth s =
     (case s of
        [] \<Rightarrow> JSONDecodeError
      | c # cs \<Rightarrow>
          if c = 34 then map_outcome (\<lambda>(t, r). (JStr t, r)) (of_option (scanstring cs))
          else if c = 123 then
            (if depth = 0 then Raises RecursionError_object
             else
               (case skip_ws cs of
                  [] \<Rightarrow> JSONDecodeError
                | d # ds \<Rightarrow>
                    if d = 125 then Returns (JObj [], ds)
                    else if d = 34
                    then map_outcome (\<lambda>(ps, r). (JObj (dict ps), r))
                           (JSONObject max_digits (depth - 1) ds)
                    else JSONDecodeError))
          else if c = 91 then
            (if depth = 0 then Raises RecursionError_array
             else
               (case skip_ws cs of
                  [] \<Rightarrow> JSONDecodeError
                | d # ds \<Rightarrow>
                    if d = 93 then Returns (JArr [], ds)
                    else map_outcome (\<lambda>(vs, r). (JArr vs, r))
                           (JSONArray max_digits (depth - 1) (d # ds))))
          else if prefix (ustr ''null'') s then Returns (JNull, drop 4 s)
          else if prefix (ustr ''true'') s then Returns (JBool True, drop 4 s)
          else if prefix (ustr ''false'') s then Returns (JBool False, drop 5 s)
          else scan_number max_digits s)"
| "JSONArray max_digits depth s =
     (case scan_once max_digits depth s of
        JSONDecodeError \<Rightarrow> JSONDecodeError
      | Raises e \<Rightarrow> Raises e
      | Returns (v, r) \<Rightarrow>
          if length r < length s then
            (case skip_ws r of
               [] \<Rightarrow> JSONDecodeError
             | d # ds \<Rightarrow>
                 if d = 93 then Returns ([v], ds)
                 else if d = 44
                 then map_outcome (\<lambda>(vs, r'). (v # vs, r'))
                        (JSONArray max_digits depth (skip_ws ds))
                 else JSONDecodeError)
          else JSONDecodeError)"
| "JSONObject max_digits depth s =
     (case scanstring s of
        None \<Rightarrow> JSONDecodeError
      | Some (key, r) \<Rightarrow>
          (case skip_ws r of
             [] \<Rightarrow> JSONDecodeError
           | colon # r1 \<Rightarrow>
               if colon = 58 then
                 (case scan_once max_digits depth (skip_ws r1) of
                    JSONDecodeError \<Rightarrow> JSONDecodeError
                  | Raises e \<Rightarrow> Raises e
                  | Returns (v, r2) \<Rightarrow>
                      if length r2 < length s then
                        (case skip_ws r2 of
                           [] \<Rightarrow> JSONDecodeError
                         | d # ds \<Rightarrow>
                             if d = 125 then Returns ([(key, v)], ds)
                             else if d = 44 then
                               (case skip_ws ds of
                                  [] \<Rightarrow> JSONDecodeError
                                | q # ds' \<Rightarrow>
                                    if q = 34
                                    then map_outcome (\<lambda>(ps, r'). ((key, v) # ps, r'))
                                           (JSONObject max_digits depth ds')
                                    else JSONDecodeError)
                             else JSONDecodeError)
                      else JSONDecodeError)
               else JSONDecodeError))"
  by pat_completeness auto
termination
  apply (relation "measure (\<lambda>x. case x of Inl (m, k, s) \<Rightarrow> 2 * length s
                                      | Inr (Inl (m, k, s)) \<Rightarrow> 2 * length s + 1
                                      | Inr (Inr (m, k, s)) \<Rightarrow> 2 * length s + 1)")
  apply (auto dest!: skip_ws_Cons_shorter scanstring_shorter intro!: skip_ws_shorter skip_ws_shorter2)
  done

declare scan_once.simps [simp del] JSONArray.simps [simp del] JSONObject.simps [simp del]

text \<open>\<open>json.loads(s)\<close> in the interpreter \<open>py\<close>: leading whitespace, one value, and
  nothing but whitespace after it.\<close>

definition json_loads :: "interpreter \<Rightarrow> pystr \<Rightarrow> json outcome" where
  "json_loads py s =
     (case scan_once (int_max_str_digits py) (recursion_depth py) (skip_ws s) of
        Returns (obj, r) \<Rightarrow> if skip_ws r = [] then Returns obj else JSONDecodeError
      | JSONDecodeError \<Rightarrow> JSONDecodeError
      | Raises e \<Rightarrow> Raises e)"

text \<open>The nesting of arrays and objects in a decoded value.\<close>

fun json_depth :: "json \<Rightarrow> nat" where
  "json_depth (JArr vs) = Suc (fold max (map json_depth vs) 0)"
| "json_depth (JObj ps) = Suc (fold max (map (\<lambda>p. json_depth (snd p)) ps) 0)"
| "json_depth v = 0"

section \<open>Python operations on decoded values\<close>

text \<open>Truth value of a decoded object, as \<open>if response_json:\<close> tests it. A float is
  false when it is zero, which for the decimal \<open>m * 10^e\<close> is \<open>m = 0\<close> or a magnitude that
  rounds to zero (at most \<open>2^-1075\<close>, half the least positive double).\<close>

definition float_is_zero :: "int \<Rightarrow> int \<Rightarrow> bool" where
  "float_is_zero m e \<longleftrightarrow> m = 0 \<or> (e < 0 \<and> \<bar>m\<bar> * 2 ^ 1075 \<le> 10 ^ nat (- e))"

fun py_truthy :: "json \<Rightarrow> bool" where
  "py_truthy JNull = False"
| "py_truthy (JBool b) = b"
| "py_truthy (JInt i) = (i \<noteq> 0)"
| "py_truthy (JFloat m e) = (\<not> float_is_zero m e)"
| "py_truthy JNaN = True"
| "py_truthy (JInfinity neg) = True"
| "py_truthy (JStr t) = (t \<noteq> [])"
| "py_truthy (JArr vs) = (vs \<noteq> [])"
| "py_truthy (JObj ps) = (ps \<noteq> [])"

text \<open>\<open>key in obj\<close> for a string key: membership among the keys of a dict, among the
  elements of a list, as a substring of a string; a \<open>TypeError\<close> (\<open>None\<close>) for a number,
  a boolean or \<open>None\<close>.\<close>

fun py_contains :: "pystr \<Rightarrow> json \<Rightarrow> bool option" where
  "py_contains key (JObj ps) = Some (key \<in> fst ` set ps)"
| "py_contains key (JArr vs) = Some (JStr key \<in> set vs)"
| "py_contains key (JStr t) = Some (sublist key t)"
| "py_contains key _ = None"

text \<open>\<open>obj[key]\<close> for a string key: the value in a dict (\<open>KeyError\<close> when absent), a
  \<open>TypeError\<close> for anything else; both are \<open>None\<close>.\<close>

fun py_getitem :: "json \<Rightarrow> pystr \<Rightarrow> json option" where
  "py_getitem (JObj ps) key = map_of ps key"
| "py_getitem _ key = None"

section \<open>Prompt Loader\<close>

text \<open>What the file system holds at the configured path: nothing (\<open>open\<close> raises
  \<open>FileNotFoundError\<close> with the given message), a file that cannot be read (\<open>open\<close> or
  \<open>read\<close> raises with the given message), or a readable text file.\<close>

datatype file_state = Missing pystr | Unreadable pystr | Readable pystr

datatype ui_event =
    St_error pystr
  | St_info pystr
  | St_warning pystr
  | St_success pystr
  | St_text "pystr option"
  | St_markdown pystr
  | St_markdown_value pystr json pystr
  | St_write_value json
  | St_write pystr
  | St_subheader pystr
  | Sidebar_warning pystr
  | Sidebar_error pystr
  | Sidebar_info pystr
  | St_expander pystr "ui_event list"

text \<open>The default of the form-based front end (\<open>load_system_prompt\<close>), verbatim.\<close>

definition DEFAULT_SYSTEM_PROMPT :: pystr where
  "DEFAULT_SYSTEM_PROMPT = ustr
     (''You are a compassionate AI mental health journal assistant. Your role is to:\<newline>'' @
      ''1. Analyze the emotional content of journal entries\<newline>'' @
      ''2. Provide supportive, empathetic responses\<newline>'' @
      ''3. Offer gentle guidance and mental health insights\<newline>'' @
      ''4. Maintain a warm, understanding tone\<newline>'' @
      ''\<newline>'' @
      ''Always respond in JSON format with:\<newline>'' @
      ''- emotion_detected: main emotion identified\<newline>'' @
      ''- summary: brief summary of the entry\<newline>'' @
      ''- advice: supportive message or advice\<newline>'' @
      ''- tone: empathetic and encouraging'')"

text \<open>\<open>load_system_prompt()\<close> of the form-based front end: the prompt and what it
  reports in the sidebar. \<open>prompt_file.exists()\<close> is false exactly for a missing file.\<close>

fun load_system_prompt :: "file_state \<Rightarrow> pystr \<times> ui_event list" where
  "load_system_prompt (Readable content) = (content, [])"
| "load_system_prompt (Unreadable e) =
     (DEFAULT_SYSTEM_PROMPT, [Sidebar_error (ustr ''Error loading prompt file: '' @ e)])"
| "load_system_prompt (Missing e) = (DEFAULT_SYSTEM_PROMPT, [])"

datatype cli_event = Print pystr | Print_json_dumps json

text \<open>The start of the command-line script: \<open>Sys_Prompt\<close> and what is printed.\<close>

definition CLI_DEFAULT_PROMPT :: pystr where
  "CLI_DEFAULT_PROMPT = ustr ''You're a helpful assistant.''"

fun cli_load_prompt :: "file_state \<Rightarrow> pystr \<times> cli_event list" where
  "cli_load_prompt (Readable content) = (content, [])"
| "cli_load_prompt (Unreadable e) = (CLI_DEFAULT_PROMPT, [Print (ustr ''Error: '' @ e)])"
| "cli_load_prompt (Missing e) = (CLI_DEFAULT_PROMPT, [Print (ustr ''Error: '' @ e)])"

section \<open>Request Builder and Model Client\<close>

text \<open>The fixed instructions both front ends put after the journal entry.\<close>

definition RESPOND_WITH :: pystr where
  "RESPOND_WITH = ustr
     (''Respond with:\<newline>'' @
      ''- Emotion detected\<newline>'' @
      ''- Short summary\<newline>'' @
      ''- Advice or mental health support message\<newline>'' @
      ''- Tone: empathetic and warm\<newline>'')"

definition journal_block :: "pystr \<Rightarrow> pystr" where
  "journal_block user_input =
     ustr ''\<newline>\<newline>User Journal Entry:\<newline>\"\"\"'' @ user_input @ ustr ''\"\"\"\<newline>\<newline>''"

text \<open>\<open>combined_prompt\<close> of the command-line loop (an f-string that ends with a newline).\<close>

definition cli_combined_prompt :: "pystr \<Rightarrow> pystr \<Rightarrow> pystr" where
  "cli_combined_prompt Sys_Prompt user_input =
     Sys_Prompt @ journal_block user_input @ RESPOND_WITH"

text \<open>\<open>combined_prompt\<close> of \<open>get_ai_response\<close> in the form-based front end.\<close>

definition FORMAT_AS_JSON :: pystr where
  "FORMAT_AS_JSON =
     ustr ''Format your response as valid JSON with keys: emotion_detected, summary, advice''"

definition gui_combined_prompt :: "pystr \<Rightarrow> pystr \<Rightarrow> pystr" where
  "gui_combined_prompt system_prompt user_input =
     system_prompt @ journal_block user_input @ RESPOND_WITH @ [10] @ FORMAT_AS_JSON"

text \<open>One call of the remote model: \<open>genai.GenerativeModel(model_name).generate_content(
  prompt, generation_config={"temperature": t})\<close> followed by \<open>response.text\<close>. The
  temperature literal \<open>0.9\<close> is the rational \<open>9/10\<close>. The remote side is a parameter: it
  answers a request with the text of the reply (\<open>Inr\<close>) or raises an exception \<open>e\<close>, of
  which only \<open>str(e)\<close> is observed (\<open>Inl\<close>).\<close>

record request =
  model_name :: pystr
  prompt :: pystr
  temperature :: rat

type_synonym remote = "request \<Rightarrow> pystr + pystr"

definition cli_request :: "pystr \<Rightarrow> pystr \<Rightarrow> request" where
  "cli_request Sys_Prompt user_input =
     \<lparr>model_name = ustr ''gemini-2.0-flash'',
      prompt = cli_combined_prompt Sys_Prompt user_input,
      temperature = 9 / 10\<rparr>"

definition gui_request :: "pystr \<Rightarrow> pystr \<Rightarrow> request" where
  "gui_request system_prompt user_input =
     \<lparr>model_name = ustr ''gemini-2.0-flash'',
      prompt = gui_combined_prompt system_prompt user_input,
      temperature = 9 / 10\<rparr>"

section \<open>The form-based front end: \<open>get_ai_response\<close>\<close>

text \<open>The pair \<open>(response_json, error)\<close>: the inner \<open>except json.JSONDecodeError\<close>
  returns \<open>(None, raw_text)\<close>; the outer \<open>except Exception\<close> turns every other exception, of
  the remote call or of \<open>json.loads\<close>, into \<open>(None, "Error: " + str(e))\<close>.\<close>

definition get_ai_response ::
  "interpreter \<Rightarrow> remote \<Rightarrow> pystr \<Rightarrow> pystr \<Rightarrow> json option \<times> pystr option" where
  "get_ai_response py generate_content user_input system_prompt =
     (case generate_content (gui_request system_prompt user_input) of
        Inl e \<Rightarrow> (None, Some (ustr ''Error: '' @ e))
      | Inr raw_text \<Rightarrow>
          (case json_loads py (clean_text raw_text) of
             Returns response_json \<Rightarrow> (Some response_json, None)
           | JSONDecodeError \<Rightarrow> (None, Some raw_text)
           | Raises e \<Rightarrow> (None, Some (ustr ''Error: '' @ exception_str e))))"

section \<open>The command-line front end\<close>

text \<open>How one pass through the body of \<open>while True\<close> ends: the loop goes on, \<open>break\<close>
  leaves it, or an exception nothing catches leaves the loop and ends the process:
  an exception of the remote call or of \<open>json.loads\<close> that is no \<open>JSONDecodeError\<close>
  (\<open>Uncaught\<close> with its \<open>str(e)\<close>), the \<open>RecursionError\<close> of \<open>json.dumps\<close> on a value nested
  too deeply, or the \<open>UnicodeEncodeError\<close> of \<open>print\<close> on a text with a lone surrogate.\<close>

datatype cli_status =
    Continue
  | Break
  | Uncaught pystr
  | Uncaught_RecursionError
  | Uncaught_UnicodeEncodeError

definition SESSION_ENDED :: pystr where
  "SESSION_ENDED = [0x1F44B] @ ustr '' Journal session ended. Stay strong, you're doing great ''
     @ [0x1F4AA, 0x1F9E0]"

definition GEMINI_INSIGHT :: pystr where
  "GEMINI_INSIGHT = [10, 0x1F4EC] @ ustr '' Gemini's Insight:\<newline>''"

definition UNEXPECTED_RESPONSE :: pystr where
  "UNEXPECTED_RESPONSE = [0x26A0, 0xFE0F] @
     ustr '' Oops! Gemini returned an unexpected response. Here's the raw output:\<newline>''"

text \<open>One pass, for the line \<open>user_input\<close> read by \<open>input\<close>. The call of
  \<open>model.generate_content\<close> stands outside every \<open>try\<close>, and the \<open>try\<close> around
  \<open>json.loads\<close> and the printing of the result catches \<open>json.JSONDecodeError\<close> only.\<close>

definition cli_iteration ::
  "interpreter \<Rightarrow> pystr \<Rightarrow> remote \<Rightarrow> pystr \<Rightarrow> cli_event list \<times> cli_status" where
  "cli_iteration py Sys_Prompt generate_content user_input =
     (if lower_is_exit user_input then ([Print SESSION_ENDED], Break)
      else
        (case generate_content (cli_request Sys_Prompt user_input) of
           Inl e \<Rightarrow> ([], Uncaught e)
         | Inr raw_text \<Rightarrow>
             (case json_loads py (clean_text raw_text) of
                Returns response_json \<Rightarrow>
                  if json_depth response_json \<le> encoder_depth py
                  then ([Print GEMINI_INSIGHT, Print_json_dumps response_json], Continue)
                  else ([Print GEMINI_INSIGHT], Uncaught_RecursionError)
              | JSONDecodeError \<Rightarrow>
                  if has_surrogate raw_text
                  then ([Print UNEXPECTED_RESPONSE], Uncaught_UnicodeEncodeError)
                  else ([Print UNEXPECTED_RESPONSE, Print raw_text], Continue)
              | Raises e \<Rightarrow> ([], Uncaught (exception_str e)))))"

text \<open>The loop over the lines typed so far, each with the behaviour of the remote side
  at that moment. When the lines are used up the loop is still running (\<open>Continue\<close>).\<close>

fun cli_loop ::
  "interpreter \<Rightarrow> pystr \<Rightarrow> (pystr \<times> remote) list \<Rightarrow> cli_event list \<times> cli_status" where
  "cli_loop py Sys_Prompt [] = ([], Continue)"
| "cli_loop py Sys_Prompt ((user_input, generate_content) # turns) =
     (case cli_iteration py Sys_Prompt generate_content user_input of
        (out, Continue) \<Rightarrow> (case cli_loop py Sys_Prompt turns of (out', st) \<Rightarrow> (out @ out', st))
      | (out, st) \<Rightarrow> (out, st))"

definition BANNER :: pystr where
  "BANNER = ustr ''\<newline>---AI Mental Health Journal Assistant---\<newline>''"

text \<open>The whole script: the prompt is loaded, the banner printed, the loop entered.\<close>

definition cli_script ::
  "interpreter \<Rightarrow> file_state \<Rightarrow> (pystr \<times> remote) list \<Rightarrow> cli_event list \<times> cli_status" where
  "cli_script py prompt_file turns =
     (case cli_load_prompt prompt_file of
        (Sys_Prompt, out) \<Rightarrow>
          (case cli_loop py Sys_Prompt turns of
             (out', st) \<Rightarrow> (out @ [Print BANNER] @ out', st)))"

section \<open>The form-based front end: the script \<open>main\<close>\<close>

text \<open>An element of \<open>st.session_state.journal_history\<close>.\<close>

record journal_entry =
  timestamp :: pystr
  entry :: pystr
  analysis :: "json option"

text \<open>What one run of the script reads from its surroundings: the environment variable,
  the key typed in the sidebar, the prompt file, the widgets (the three buttons and the
  text area), the remote side, the formatted time \<open>datetime.now().strftime(...)\<close> at
  the save and at the analysis, the limits of the interpreter, and the Streamlit library:
  \<open>st_returns ev\<close> tells whether the call that shows \<open>ev\<close> returns; where it is false the
  call raises, for whatever reason the library has.\<close>

record script_inputs =
  env_api_key :: "pystr option"
  typed_api_key :: pystr
  prompt_file :: file_state
  clear_history_btn :: bool
  user_input :: pystr
  analyze_btn :: bool
  save_btn :: bool
  generate_content :: remote
  now_save :: pystr
  now_analysis :: pystr
  limits :: interpreter
  st_returns :: "ui_event \<Rightarrow> bool"

text \<open>How a run of the script ends: at its last line, at the \<open>return\<close> for a missing
  key, at \<open>st.rerun()\<close>, or at an exception of the script body (a \<open>TypeError\<close> of
  \<open>in\<close> or of a subscript, or the exception of a Streamlit call).\<close>

datatype run_end = Completed | Returned | Rerun | Raised

text \<open>\<open>load_api_key()\<close>: an unset or empty variable asks for the key in the sidebar.\<close>

definition load_api_key :: "pystr option \<Rightarrow> pystr \<Rightarrow> bool \<times> ui_event list" where
  "load_api_key env typed =
     (case (case env of None \<Rightarrow> [] | Some k \<Rightarrow> k) of
        [] \<Rightarrow> (typed \<noteq> [],
               [Sidebar_warning ([0x26A0, 0xFE0F] @
                  ustr '' Gemini API key not found in environment variables'')])
      | c # k \<Rightarrow> (True, []))"

text \<open>What a stretch of the script shows, and whether it ran to its end (\<open>True\<close>) or
  stopped at an exception.\<close>

type_synonym rendering = "ui_event list \<times> bool"

definition and_then :: "rendering \<Rightarrow> rendering \<Rightarrow> rendering" where
  "and_then a b = (if snd a then (fst a @ fst b, snd b) else a)"

text \<open>What is said of a value where an f-string or \<open>st.write\<close> turns it into text: a
  string stands for itself, with its surrogates; every other value is written with the
  strings inside it escaped.\<close>

definition value_has_surrogate :: "json \<Rightarrow> bool" where
  "value_has_surrogate v = (case v of JStr t \<Rightarrow> has_surrogate t | _ \<Rightarrow> False)"

text \<open>The text a call hands to Streamlit cannot be sent when it holds a lone surrogate.\<close>

fun unencodable :: "ui_event \<Rightarrow> bool" where
  "unencodable (St_error t) = has_surrogate t"
| "unencodable (St_info t) = has_surrogate t"
| "unencodable (St_warning t) = has_surrogate t"
| "unencodable (St_success t) = has_surrogate t"
| "unencodable (St_text None) = False"
| "unencodable (St_text (Some t)) = has_surrogate t"
| "unencodable (St_markdown t) = has_surrogate t"
| "unencodable (St_markdown_value before v after) =
     (has_surrogate before \<or> value_has_surrogate v \<or> has_surrogate after)"
| "unencodable (St_write_value v) = value_has_surrogate v"
| "unencodable (St_write t) = has_surrogate t"
| "unencodable (St_subheader t) = has_surrogate t"
| "unencodable (Sidebar_warning t) = has_surrogate t"
| "unencodable (Sidebar_error t) = has_surrogate t"
| "unencodable (Sidebar_info t) = has_surrogate t"
| "unencodable (St_expander label body) = has_surrogate label"

text \<open>A Streamlit call that shows a text of the session (a value of the reply, the raw
  reply, the text of an entry, a label with a timestamp): it raises when the text cannot
  be encoded or the library raises for a reason of its own, and shows the element
  otherwise. The calls that show a fixed text of the script are taken to return.\<close>

definition st_call :: "(ui_event \<Rightarrow> bool) \<Rightarrow> ui_event \<Rightarrow> rendering" where
  "st_call returns ev = (if unencodable ev \<or> \<not> returns ev then ([], False) else ([ev], True))"

text \<open>\<open>if key in obj: ... obj[key] ...\<close>: \<open>before\<close> is shown between the test and the
  subscript, \<open>render\<close> shows the value.\<close>

definition show_field ::
  "pystr \<Rightarrow> ui_event list \<Rightarrow> (json \<Rightarrow> rendering) \<Rightarrow> json \<Rightarrow> rendering" where
  "show_field key before render obj =
     (case py_contains key obj of
        None \<Rightarrow> ([], False)
      | Some False \<Rightarrow> ([], True)
      | Some True \<Rightarrow>
          (case py_getitem obj key of
             None \<Rightarrow> (before, False)
           | Some v \<Rightarrow> and_then (before, True) (render v)))"

text \<open>The analysis column shows a truthy \<open>response_json\<close>.\<close>

definition display_analysis :: "(ui_event \<Rightarrow> bool) \<Rightarrow> json \<Rightarrow> rendering" where
  "display_analysis returns response_json =
     and_then ([St_markdown (ustr ''<div class=\"response-container\">'')], True)
    (and_then (show_field (ustr ''emotion_detected'') []
                 (\<lambda>v. st_call returns (St_markdown_value
                        (ustr ''<div class=\"emotion-badge\">'' @ [0x1F60A] @ ustr '' Emotion: '')
                        v (ustr ''</div>'')))
                 response_json)
    (and_then (show_field (ustr ''summary'')
                 [St_markdown (ustr ''**'' @ [0x1F4CB] @ ustr '' Summary:**'')]
                 (\<lambda>v. st_call returns (St_write_value v)) response_json)
    (and_then (show_field (ustr ''advice'')
                 [St_markdown (ustr ''**'' @ [0x1F4A1] @ ustr '' AI Guidance:**'')]
                 (\<lambda>v. st_call returns (St_write_value v)) response_json)
              ([St_markdown (ustr ''</div>'')], True))))"

text \<open>The block of the Save Entry button.\<close>

definition save_entry_block :: "script_inputs \<Rightarrow> journal_entry list \<Rightarrow> journal_entry list \<times> ui_event list" where
  "save_entry_block inp journal_history =
     (if save_btn inp then
        (if py_strip (user_input inp) \<noteq> [] then
           (journal_history @
              [\<lparr>timestamp = now_save inp, entry = user_input inp, analysis = None\<rparr>],
            [St_success (ustr ''Entry saved!'')])
         else (journal_history, [St_warning (ustr ''Please write something before saving.'')]))
      else (journal_history, []))"

definition UNEXPECTED_FORMAT :: pystr where
  "UNEXPECTED_FORMAT = [0x26A0, 0xFE0F] @ ustr '' Unexpected response format''"

text \<open>The \<open>else\<close> branch of \<open>if response_json:\<close>: the error indicator, and \<open>error\<close> as
  plain text under an expander.\<close>

definition unexpected_format :: "(ui_event \<Rightarrow> bool) \<Rightarrow> pystr option \<Rightarrow> rendering" where
  "unexpected_format returns error =
     (case st_call returns (St_text error) of
        (body, ok) \<Rightarrow>
          ([St_error UNEXPECTED_FORMAT, St_expander (ustr ''View raw response'') body], ok))"

text \<open>The analysis column: \<open>if analyze_btn and user_input.strip(): ... elif analyze_btn:\<close>.
  The entry is appended after the analysis has been shown.\<close>

definition analysis_block ::
  "script_inputs \<Rightarrow> pystr \<Rightarrow> journal_entry list \<Rightarrow> journal_entry list \<times> rendering" where
  "analysis_block inp system_prompt journal_history =
     (if analyze_btn inp \<and> py_strip (user_input inp) \<noteq> [] then
        (case get_ai_response (limits inp) (generate_content inp) (user_input inp) system_prompt of
           (response_json, error) \<Rightarrow>
             (case response_json of
                None \<Rightarrow> (journal_history, unexpected_format (st_returns inp) error)
              | Some obj \<Rightarrow>
                  if py_truthy obj then
                    (case display_analysis (st_returns inp) obj of
                       (shown, True) \<Rightarrow>
                         (journal_history @
                            [\<lparr>timestamp = now_analysis inp, entry = user_input inp,
                              analysis = Some obj\<rparr>],
                          (shown, True))
                     | (shown, False) \<Rightarrow> (journal_history, (shown, False)))
                  else (journal_history, unexpected_format (st_returns inp) error)))
      else if analyze_btn inp then
        (journal_history,
         ([St_warning (ustr ''Please write something in your journal entry first.'')], True))
      else (journal_history, ([], True)))"

text \<open>The Journal History section: the entries in \<open>reversed\<close> order, the \<open>i\<close>-th of
  them (from 0) under the label \<open>Entry {len - i} - {timestamp}\<close>.\<close>

definition entry_label :: "nat \<Rightarrow> journal_entry \<Rightarrow> pystr" where
  "entry_label n e = [0x1F4C5] @ ustr '' Entry '' @ str_nat n @ ustr '' - '' @ timestamp e"

definition entry_analysis :: "(ui_event \<Rightarrow> bool) \<Rightarrow> journal_entry \<Rightarrow> rendering" where
  "entry_analysis returns e =
     (case analysis e of
        None \<Rightarrow> ([], True)
      | Some obj \<Rightarrow>
          if py_truthy obj then
            and_then ([St_markdown (ustr ''**AI Analysis:**'')], True)
           (and_then (show_field (ustr ''emotion_detected'') []
                        (\<lambda>v. st_call returns
                               (St_markdown_value ([0x1F3AD] @ ustr '' **Emotion:** '') v [])) obj)
           (and_then (show_field (ustr ''summary'') []
                        (\<lambda>v. st_call returns
                               (St_markdown_value ([0x1F4CB] @ ustr '' **Summary:** '') v [])) obj)
                     (show_field (ustr ''advice'') []
                        (\<lambda>v. st_call returns
                               (St_markdown_value ([0x1F4A1] @ ustr '' **Advice:** '') v [])) obj)))
          else ([], True))"

definition entry_body :: "(ui_event \<Rightarrow> bool) \<Rightarrow> journal_entry \<Rightarrow> rendering" where
  "entry_body returns e =
     and_then ([St_markdown (ustr ''<div class=\"journal-container\">''),
                St_markdown (ustr ''**Your Entry:**'')], True)
    (and_then (st_call returns (St_write (entry e)))
    (and_then (entry_analysis returns e) ([St_markdown (ustr ''</div>'')], True)))"

text \<open>The loop over the entries: \<open>st.expander(label)\<close> opens the expander, the body of the
  \<open>with\<close> fills it; what was shown before an exception stays on the page.\<close>

fun history_loop :: "(ui_event \<Rightarrow> bool) \<Rightarrow> nat \<Rightarrow> (nat \<times> journal_entry) list \<Rightarrow> rendering" where
  "history_loop returns len [] = ([], True)"
| "history_loop returns len ((i, e) # rest) =
     (if snd (st_call returns (St_expander (entry_label (len - i) e) [])) then
        (case entry_body returns e of
           (body, ok) \<Rightarrow>
             and_then ([St_expander (entry_label (len - i) e) body], ok)
               (history_loop returns len rest))
      else ([], False))"

definition journal_history_section :: "(ui_event \<Rightarrow> bool) \<Rightarrow> journal_entry list \<Rightarrow> rendering" where
  "journal_history_section returns journal_history =
     (if journal_history \<noteq> [] then
        and_then ([St_markdown (ustr ''---''),
                   St_subheader ([0x1F4DA] @ ustr '' Journal History'')], True)
                 (history_loop returns (length journal_history) (enumerate 0 (rev journal_history)))
      else ([], True))"

definition PROVIDE_KEY :: pystr where
  "PROVIDE_KEY = ustr ''Please provide your Gemini API key to continue.''"

definition GET_KEY :: pystr where
  "GET_KEY = [0x1F4A1] @ ustr
     '' You can get your API key from [Google AI Studio](https://makersuite.google.com/app/apikey)''"

text \<open>One run of \<open>main()\<close> on the session's history: the history it leaves, what it shows
  (the page's fixed headings and widgets are left out) and how it ends. The history is
  session state: it keeps what a run did before an exception.\<close>

definition main ::
  "script_inputs \<Rightarrow> journal_entry list \<Rightarrow> journal_entry list \<times> ui_event list \<times> run_end" where
  "main inp journal_history =
     (case load_api_key (env_api_key inp) (typed_api_key inp) of
        (False, ev0) \<Rightarrow> (journal_history, ev0 @ [St_error PROVIDE_KEY, St_info GET_KEY], Returned)
      | (True, ev0) \<Rightarrow>
          (case load_system_prompt (prompt_file inp) of
             (system_prompt, ev1) \<Rightarrow>
               (let ev2 = ev0 @ ev1 @
                      [Sidebar_info (ustr ''Entries today: '' @ str_nat (length journal_history))]
                in if clear_history_btn inp then ([], ev2, Rerun)
                   else
                     (case save_entry_block inp journal_history of
                        (h1, ev3) \<Rightarrow>
                          (case analysis_block inp system_prompt h1 of
                             (h2, ev4, ok4) \<Rightarrow>
                               if ok4 then
                                 (case journal_history_section (st_returns inp) h2 of
                                    (ev5, ok5) \<Rightarrow>
                                      (h2, ev2 @ ev3 @ ev4 @ ev5,
                                       if ok5 then Completed else Raised))
                               else (h2, ev2 @ ev3 @ ev4, Raised))))))"

text \<open>A click makes one run with that button down. \<open>st.rerun()\<close> starts the script again
  at once, with every button up.\<close>

definition buttons_up :: "script_inputs \<Rightarrow> script_inputs" where
  "buttons_up inp = inp\<lparr>clear_history_btn := False, analyze_btn := False, save_btn := False\<rparr>"

definition script_run ::
  "script_inputs \<Rightarrow> journal_entry list \<Rightarrow> journal_entry list \<times> ui_event list \<times> run_end" where
  "script_run inp journal_history =
     (case main inp journal_history of
        (h, ev, Rerun) \<Rightarrow> main (buttons_up inp) h
      | res \<Rightarrow> res)"

text \<open>The history after a sequence of runs.\<close>

fun session :: "script_inputs list \<Rightarrow> journal_entry list \<Rightarrow> journal_entry list" where
  "session [] journal_history = journal_history"
| "session (inp # inps) journal_history = session inps (fst (script_run inp journal_history))"

section \<open>Actions on the History Store\<close>

text \<open>The entry the analysis column appends in a run with the system prompt \<open>sp\<close>, if any.\<close>

definition analysed :: "script_inputs \<Rightarrow> pystr \<Rightarrow> journal_entry list" where
  "analysed inp sp =
     (if analyze_btn inp \<and> py_strip (user_input inp) \<noteq> [] then
        (case fst (get_ai_response (limits inp) (generate_content inp) (user_input inp) sp) of
           None \<Rightarrow> []
         | Some obj \<Rightarrow>
             if py_truthy obj \<and> snd (display_analysis (st_returns inp) obj)
             then [\<lparr>timestamp = now_analysis inp, entry = user_input inp, analysis = Some obj\<rparr>]
             else [])
      else [])"

text \<open>Whether \<open>load_api_key()\<close> finds a key, and the prompt \<open>load_system_prompt()\<close>
  returns.\<close>

definition key_ok :: "script_inputs \<Rightarrow> bool" where
  "key_ok inp = fst (load_api_key (env_api_key inp) (typed_api_key inp))"

definition system_prompt_of :: "script_inputs \<Rightarrow> pystr" where
  "system_prompt_of inp = fst (load_system_prompt (prompt_file inp))"

text \<open>A click on Save Entry with a text that is not blank; a click on Analyze Entry
  with such a text, whose reply decodes to a value that is true for \<open>if response_json:\<close>
  and that the analysis column shows without an exception; a click on Clear History;
  and the entry the first two append.\<close>

definition save_action :: "script_inputs \<Rightarrow> bool" where
  "save_action inp \<longleftrightarrow>
     key_ok inp \<and> \<not> clear_history_btn inp \<and> save_btn inp \<and> \<not> analyze_btn inp
     \<and> py_strip (user_input inp) \<noteq> []"

definition analyze_action :: "script_inputs \<Rightarrow> bool" where
  "analyze_action inp \<longleftrightarrow>
     key_ok inp \<and> \<not> clear_history_btn inp \<and> \<not> save_btn inp \<and> analyze_btn inp
     \<and> py_strip (user_input inp) \<noteq> []
     \<and> (case fst (get_ai_response (limits inp) (generate_content inp) (user_input inp)
                     (system_prompt_of inp)) of
          None \<Rightarrow> False
        | Some obj \<Rightarrow> py_truthy obj \<and> snd (display_analysis (st_returns inp) obj))"

definition clear_action :: "script_inputs \<Rightarrow> bool" where
  "clear_action inp \<longleftrightarrow> key_ok inp \<and> clear_history_btn inp"

definition action_entry :: "script_inputs \<Rightarrow> journal_entry" where
  "action_entry inp =
     (if save_btn inp
      then \<lparr>timestamp = now_save inp, entry = user_input inp, analysis = None\<rparr>
      else \<lparr>timestamp = now_analysis inp, entry = user_input inp,
            analysis = fst (get_ai_response (limits inp) (generate_content inp) (user_input inp)
                              (system_prompt_of inp))\<rparr>)"

text \<open>An entry whose text has a character that is not whitespace.\<close>

definition nonblank :: "journal_entry \<Rightarrow> bool" where
  "nonblank e \<longleftrightarrow> (\<exists>c\<in>set (entry e). \<not> py_isspace c)"

section \<open>A concrete session\<close>

text \<open>The reply and the journal text of the specification's end-to-end scenario, and the
  clicks of a short session: a save, an analysis, a clear, an analysis that is answered in
  prose, and a save of blank text. The interpreter has CPython's default limits and
  Streamlit raises for no reason of its own.\<close>

definition example_reply :: pystr where
  "example_reply = ustr
     (''```json\<newline>'' @
      ''{\"emotion_detected\":\"anxiety\",\"summary\":\"Feeling anxious about an upcoming event\",'' @
      ''\"advice\":\"Try a short breathing exercise.\"}'' @
      ''\<newline>```'')"

definition example_analysis :: json where
  "example_analysis = JObj
     [(ustr ''emotion_detected'', JStr (ustr ''anxiety'')),
      (ustr ''summary'', JStr (ustr ''Feeling anxious about an upcoming event'')),
      (ustr ''advice'', JStr (ustr ''Try a short breathing exercise.''))]"

definition example_inputs :: script_inputs where
  "example_inputs =
     \<lparr>env_api_key = Some (ustr ''secret''), typed_api_key = [],
      prompt_file = Missing (ustr ''No such file''),
      clear_history_btn = False,
      user_input = ustr ''I feel anxious about tomorrow'',
      analyze_btn = False, save_btn = False,
      generate_content = (\<lambda>req. Inr example_reply),
      now_save = ustr ''2025-01-01 10:00:00'',
      now_analysis = ustr ''2025-01-01 10:00:07'',
      limits = default_limits,
      st_returns = (\<lambda>ev. True)\<rparr>"

definition save_click :: script_inputs where
  "save_click = example_inputs\<lparr>save_btn := True\<rparr>"

definition analyze_click :: script_inputs where
  "analyze_click = example_inputs\<lparr>analyze_btn := True\<rparr>"

definition clear_click :: script_inputs where
  "clear_click = example_inputs\<lparr>clear_history_btn := True\<rparr>"

definition prose_click :: script_inputs where
  "prose_click = example_inputs
     \<lparr>analyze_btn := True, generate_content := (\<lambda>req. Inr (ustr ''I think you feel okay.''))\<rparr>"

definition blank_click :: script_inputs where
  "blank_click = example_inputs\<lparr>user_input := ustr ''  '', save_btn := True\<rparr>"

text \<open>Further clicks on Analyze Entry, answered by the empty object \<open>{}\<close>, by the
  number \<open>5\<close>, by an object whose emotion is the JSON escape of the lone surrogate U+D800, and
  by 1100 opening brackets; a run with no buttons down; and a run without a key.\<close>

definition empty_object_click :: script_inputs where
  "empty_object_click = example_inputs
     \<lparr>analyze_btn := True, generate_content := (\<lambda>req. Inr (ustr ''{}''))\<rparr>"

definition five_click :: script_inputs where
  "five_click = example_inputs
     \<lparr>analyze_btn := True, generate_content := (\<lambda>req. Inr (ustr ''5''))\<rparr>"

definition surrogate_reply :: pystr where
  "surrogate_reply = ustr ''{\"emotion_detected\": \"'' @ [92] @ ustr ''ud800\"}''"

definition surrogate_click :: script_inputs where
  "surrogate_click = example_inputs
     \<lparr>analyze_btn := True, generate_content := (\<lambda>req. Inr surrogate_reply)\<rparr>"

definition deep_reply :: pystr where
  "deep_reply = replicate 1100 91"

definition deep_click :: script_inputs where
  "deep_click = example_inputs
     \<lparr>analyze_btn := True, generate_content := (\<lambda>req. Inr deep_reply)\<rparr>"

definition no_key_run :: script_inputs where
  "no_key_run = example_inputs\<lparr>env_api_key := None\<rparr>"

definition saved_entry :: journal_entry where
  "saved_entry = \<lparr>timestamp = ustr ''2025-01-01 10:00:00'',
                   entry = ustr ''I feel anxious about tomorrow'', analysis = None\<rparr>"

definition analysed_entry :: journal_entry where
  "analysed_entry = \<lparr>timestamp = ustr ''2025-01-01 10:00:07'',
                      entry = ustr ''I feel anxious about tomorrow'',
                      analysis = Some example_analysis\<rparr>"

section \<open>What a successful scan consumes: notions\<close>

text \<open>The text after a number must not continue it: it is empty or starts with
  something that is no digit; after a value of a document it is empty or starts with
  whitespace, a comma or a closing bracket.\<close>

definition no_digit_next :: "pystr \<Rightarrow> bool" where
  "no_digit_next r \<longleftrightarrow> r = [] \<or> \<not> is_digit (hd r)"

definition delimiter_next :: "pystr \<Rightarrow> bool" where
  "delimiter_next r \<longleftrightarrow> r = [] \<or> json_ws (hd r) \<or> hd r = 44 \<or> hd r = 93 \<or> hd r = 125"

text \<open>What a successful scan has consumed: a non-empty front \<open>b\<close> of the text, which
  scans to the same value, under the same limits \<open>m\<close> (digits) and \<open>k\<close> (depth),
  whatever follows it (for a value: whatever delimiter).\<close>

definition scan_ok :: "nat \<Rightarrow> nat \<Rightarrow> pystr \<Rightarrow> json \<Rightarrow> pystr \<Rightarrow> bool" where
  "scan_ok m k s v r \<longleftrightarrow>
     (\<exists>b. s = b @ r \<and> b \<noteq> [] \<and> \<not> py_isspace (hd b) \<and> \<not> py_isspace (last b)
        \<and> (\<forall>r'. delimiter_next r' \<longrightarrow> scan_once m k (b @ r') = Returns (v, r')))"

definition arr_ok :: "nat \<Rightarrow> nat \<Rightarrow> pystr \<Rightarrow> json list \<Rightarrow> pystr \<Rightarrow> bool" where
  "arr_ok m k s vs r \<longleftrightarrow>
     (\<exists>b. s = b @ r \<and> b \<noteq> [] \<and> \<not> json_ws (hd b) \<and> last b = 93
        \<and> (\<forall>r'. JSONArray m k (b @ r') = Returns (vs, r')))"

definition obj_ok ::
  "nat \<Rightarrow> nat \<Rightarrow> pystr \<Rightarrow> (pystr \<times> json) list \<Rightarrow> pystr \<Rightarrow> bool" where
  "obj_ok m k s ps r \<longleftrightarrow>
     (\<exists>b. s = b @ r \<and> b \<noteq> [] \<and> last b = 125
        \<and> (\<forall>r'. JSONObject m k (b @ r') = Returns (ps, r')))"

section \<open>Properties of the cleaning step\<close>

lemma fence_unfold: "fence = [96, 96, 96]"
  by (simp add: fence_def ustr_def)

lemma fence_json_unfold: "fence_json = [96, 96, 96, 106, 115, 111, 110]"
  by (simp add: fence_json_def ustr_def)

lemma re_sub_fences_keep:
  "\<not> prefix fence (c # cs) \<Longrightarrow> re_sub_fences (c # cs) = c # re_sub_fences cs"
  by (auto simp: re_sub_fences.simps(2) fence_unfold fence_json_unfold prefix_def)

lemma re_sub_fences_drop7:
  "prefix fence_json (c # cs) \<Longrightarrow> re_sub_fences (c # cs) = re_sub_fences (drop 7 (c # cs))"
  by (simp add: re_sub_fences.simps(2))

lemma re_sub_fences_drop3:
  "\<not> prefix fence_json (c # cs) \<Longrightarrow> prefix fence (c # cs) \<Longrightarrow>
   re_sub_fences (c # cs) = re_sub_fences (drop 3 (c # cs))"
  by (simp add: re_sub_fences.simps(2))

lemma prefix_fence_json_fence: "prefix fence_json s \<Longrightarrow> prefix fence s"
  by (auto simp: fence_unfold fence_json_unfold prefix_def)

lemma re_sub_fences_hd:
  "re_sub_fences s = 96 # t \<Longrightarrow> \<exists>u. s = 96 # u"
proof (induction s rule: re_sub_fences.induct)
  case 1
  then show ?case by simp
next
  case (2 c cs)
  show ?case
  proof (cases "prefix fence (c # cs)")
    case True
    then show ?thesis by (auto simp: fence_unfold prefix_def)
  next
    case False
    with 2(4) have "c # re_sub_fences cs = 96 # t" by (simp add: re_sub_fences_keep)
    then show ?thesis by simp
  qed
qed

lemma re_sub_fences_no_prefix: "\<not> prefix fence (re_sub_fences s)"
proof (induction s rule: re_sub_fences.induct)
  case 1
  then show ?case by (simp add: fence_unfold)
next
  case (2 c cs)
  show ?case
  proof (cases "prefix fence_json (c # cs)")
    case True
    with 2 show ?thesis by (simp add: re_sub_fences_drop7)
  next
    case nj: False
    show ?thesis
    proof (cases "prefix fence (c # cs)")
      case True
      with nj 2 show ?thesis by (simp add: re_sub_fences_drop3)
    next
      case False
      have out: "re_sub_fences (c # cs) = c # re_sub_fences cs"
        using False by (rule re_sub_fences_keep)
      show ?thesis
      proof
        assume "prefix fence (re_sub_fences (c # cs))"
        then obtain t where c: "c = 96" and r: "re_sub_fences cs = 96 # 96 # t"
          by (auto simp: out fence_unfold prefix_def)
        from re_sub_fences_hd[OF r] obtain u where cs: "cs = 96 # u" by blast
        have nf: "\<not> prefix fence cs"
          using False by (auto simp: cs c fence_unfold prefix_def)
        with r have "re_sub_fences u = 96 # t" by (simp add: cs re_sub_fences_keep)
        from re_sub_fences_hd[OF this] obtain v where "u = 96 # v" by blast
        with False show False by (simp add: c cs fence_unfold)
      qed
    qed
  qed
qed

lemma re_sub_fences_no_fence: "\<not> sublist fence (re_sub_fences s)"
proof (induction s rule: re_sub_fences.induct)
  case 1
  then show ?case by (simp add: fence_unfold)
next
  case (2 c cs)
  show ?case
  proof (cases "prefix fence_json (c # cs)")
    case True
    with 2 show ?thesis by (simp add: re_sub_fences_drop7)
  next
    case nj: False
    show ?thesis
    proof (cases "prefix fence (c # cs)")
      case True
      with nj 2 show ?thesis by (simp add: re_sub_fences_drop3)
    next
      case False
      have out: "re_sub_fences (c # cs) = c # re_sub_fences cs"
        using False by (rule re_sub_fences_keep)
      have "\<not> prefix fence (c # re_sub_fences cs)"
        using re_sub_fences_no_prefix[of "c # cs"] by (simp add: out)
      moreover have "\<not> sublist fence (re_sub_fences cs)"
        using 2(3) nj False by simp
      ultimately show ?thesis by (simp add: out sublist_Cons_right)
    qed
  qed
qed

lemma re_sub_fences_id: "\<not> sublist fence s \<Longrightarrow> re_sub_fences s = s"
proof (induction s)
  case Nil
  then show ?case by simp
next
  case (Cons c cs)
  from Cons.prems have np: "\<not> prefix fence (c # cs)" and ns: "\<not> sublist fence cs"
    by (auto simp: sublist_Cons_right)
  from np ns Cons.IH show ?case by (simp add: re_sub_fences_keep)
qed

lemma sublist_py_strip: "sublist (py_strip s) s"
proof -
  have "suffix (dropWhile py_isspace s) s" by (rule suffix_dropWhile)
  moreover have "suffix (dropWhile py_isspace (rev (dropWhile py_isspace s))) (rev (dropWhile py_isspace s))"
    by (rule suffix_dropWhile)
  then have "prefix (py_strip s) (dropWhile py_isspace s)"
    unfolding py_strip_def by (metis rev_rev_ident suffix_to_prefix)
  ultimately show ?thesis
    by (meson prefix_imp_sublist suffix_imp_sublist sublist_order.order_trans)
qed

lemma dropWhile_id: "xs = [] \<or> \<not> P (hd xs) \<Longrightarrow> dropWhile P xs = xs"
  by (cases xs) auto

lemma py_strip_ends:
  "py_strip s = [] \<or> (\<not> py_isspace (hd (py_strip s)) \<and> \<not> py_isspace (last (py_strip s)))"
proof (cases "py_strip s = []")
  case True then show ?thesis by simp
next
  case False
  let ?t = "dropWhile py_isspace s"
  let ?u = "dropWhile py_isspace (rev ?t)"
  have u: "?u \<noteq> []" using False by (simp add: py_strip_def)
  then have t: "?t \<noteq> []" by (cases "?t") auto
  have "\<not> py_isspace (hd ?u)" using u by (rule hd_dropWhile)
  then have l: "\<not> py_isspace (last (py_strip s))"
    using u by (simp add: py_strip_def last_rev)
  obtain ws where ws: "rev ?t = ws @ ?u" 
    by (metis takeWhile_dropWhile_id)
  then have "?t = rev ?u @ rev ws" by (metis rev_append rev_rev_ident)
  then have "hd ?t = hd (rev ?u)" using u by (metis hd_append2 rev_is_Nil_conv)
  moreover have "\<not> py_isspace (hd ?t)" using t by (rule hd_dropWhile)
  ultimately have "\<not> py_isspace (hd (py_strip s))" by (simp add: py_strip_def)
  with l show ?thesis by simp
qed

lemma py_strip_id:
  assumes "s = [] \<or> (\<not> py_isspace (hd s) \<and> \<not> py_isspace (last s))"
  shows "py_strip s = s"
proof (cases "s = []")
  case True then show ?thesis by (simp add: py_strip_def)
next
  case False
  with assms have h: "\<not> py_isspace (hd s)" and l: "\<not> py_isspace (last s)" by auto
  have 1: "dropWhile py_isspace s = s" using h by (intro dropWhile_id) simp
  have "hd (rev s) = last s" using False by (simp add: hd_rev)
  then have 2: "dropWhile py_isspace (rev s) = rev s" using l by (intro dropWhile_id) simp
  show ?thesis by (simp add: py_strip_def 1 2)
qed

lemma py_strip_idem: "py_strip (py_strip s) = py_strip s"
  using py_strip_ends[of s] by (intro py_strip_id) 

text \<open>
  Claim C9. The cleaning step of the Response Normalizer is idempotent: removing the fence
  markers and trimming, applied to an already cleaned text, gives the same text.
\<close>

theorem clean_text_idempotent: "clean_text (clean_text raw) = clean_text raw"
proof -
  have "\<not> sublist fence (clean_text raw)"
    using re_sub_fences_no_fence[of raw] sublist_py_strip[of "re_sub_fences raw"]
    unfolding clean_text_def by (meson sublist_order.order_trans)
  then have "re_sub_fences (clean_text raw) = clean_text raw" by (rule re_sub_fences_id)
  then show ?thesis by (simp add: clean_text_def py_strip_idem)
qed

section \<open>What a successful scan consumes\<close>

text \<open>Each scanner, where it succeeds, has read a non-empty front of the text and
  reads the same from that front whatever follows. Trimming a valid document therefore
  leaves a valid document with the same value.\<close>

lemma hex_value_not_quote: "hex_value c = Some x \<Longrightarrow> c \<noteq> 34"
  by (auto simp: hex_value_def split: if_splits)

lemma decode_uXXXX_consumes:
  assumes "decode_uXXXX s = Some (u, r)"
  obtains a b c d where "s = [a, b, c, d] @ r" "a \<noteq> 34" "b \<noteq> 34" "c \<noteq> 34" "d \<noteq> 34"
    "\<And>r'. decode_uXXXX ([a, b, c, d] @ r') = Some (u, r')"
proof -
  from assms obtain a b c d where s: "s = a # b # c # d # r"
    by (auto simp: decode_uXXXX_def split: list.splits option.splits)
  with assms obtain x y z w where h: "hex_value a = Some x" "hex_value b = Some y"
      "hex_value c = Some z" "hex_value d = Some w" "u = ((x * 16 + y) * 16 + z) * 16 + w"
    by (auto simp: decode_uXXXX_def split: option.splits)
  have "\<And>r'. decode_uXXXX ([a, b, c, d] @ r') = Some (u, r')"
    using h by (simp add: decode_uXXXX_def)
  with s h that show thesis
    by (metis append_Cons append_Nil hex_value_not_quote)
qed

lemma scanstring_consumes:
  "scanstring s = Some (t, r) \<Longrightarrow>
   \<exists>b. s = b @ r \<and> b \<noteq> [] \<and> last b = 34 \<and> (\<forall>r'. scanstring (b @ r') = Some (t, r'))"
proof (induction "length s" arbitrary: s t r rule: less_induct)
  case less
  note IH = less.hyps
  show ?case
  proof (cases s)
    case Nil
    with less.prems show ?thesis by (simp add: scanstring_Nil)
  next
    case (Cons c cs)
    consider (quote) "c = 34" | (esc) "c = 92" | (plain) "c \<noteq> 34" "c \<noteq> 92" by blast
    then show ?thesis
    proof cases
      case quote
      with less.prems Cons have "t = []" "r = cs" by (simp_all add: scanstring_quote)
      with quote Cons have "s = [34] @ r \<and> [34::nat] \<noteq> [] \<and> last [34::nat] = 34
          \<and> (\<forall>r'. scanstring ([34] @ r') = Some (t, r'))"
        by (simp add: scanstring_quote)
      then show ?thesis by blast
    next
      case plain
      with less.prems Cons obtain t' where sc: "scanstring cs = Some (t', r)" and t: "t = c # t'"
        and c: "\<not> c < 32"
        by (auto simp: scanstring_plain cons_chunk_Some split: if_splits)
      from IH[OF _ sc] Cons obtain b where b: "cs = b @ r" "b \<noteq> []" "last b = 34"
        "\<forall>r'. scanstring (b @ r') = Some (t', r')" by auto
      have "s = (c # b) @ r \<and> c # b \<noteq> [] \<and> last (c # b) = 34
          \<and> (\<forall>r'. scanstring ((c # b) @ r') = Some (t, r'))"
        using b Cons plain c t by (simp add: scanstring_plain cons_chunk_Some)
      then show ?thesis by blast
    next
      case esc
      show ?thesis
      proof (cases cs)
        case Nil
        with less.prems Cons esc show ?thesis by (simp add: scanstring_backslash_end)
      next
        case c2: (Cons e r0)
        show ?thesis
        proof (cases "e = 117")
          case False
          with less.prems Cons esc c2 obtain t' ch where sc: "scanstring r0 = Some (t', r)"
            and ch: "BACKSLASH e = Some ch" and t: "t = ch # t'"
            by (auto simp: scanstring_escape cons_chunk_Some split: option.splits)
          from IH[OF _ sc] Cons c2 obtain b where b: "r0 = b @ r" "b \<noteq> []" "last b = 34"
            "\<forall>r'. scanstring (b @ r') = Some (t', r')" by auto
          have "s = (92 # e # b) @ r \<and> 92 # e # b \<noteq> [] \<and> last (92 # e # b) = 34
              \<and> (\<forall>r'. scanstring ((92 # e # b) @ r') = Some (t, r'))"
            using b Cons c2 esc False ch t by (simp add: scanstring_escape cons_chunk_Some)
          then show ?thesis by blast
        next
          case True
          from less.prems Cons esc c2 True obtain uni r1 where
            d: "decode_uXXXX r0 = Some (uni, r1)"
            by (auto simp: scanstring_unicode split: option.splits)
          from decode_uXXXX_consumes[OF d] obtain h1 h2 h3 h4 where
            r0: "r0 = [h1, h2, h3, h4] @ r1"
            and d': "\<And>r'. decode_uXXXX ([h1, h2, h3, h4] @ r') = Some (uni, r')" by metis
          let ?pre = "[92, 117, h1, h2, h3, h4]"
          have s: "s = ?pre @ r1" using Cons c2 esc True r0 by simp
          have step: "\<And>x. scanstring (?pre @ x) =
              (if 0xD800 \<le> uni \<and> uni \<le> 0xDBFF \<and> take 2 x = [92, 117] then
                 (case decode_uXXXX (drop 2 x) of
                    None \<Rightarrow> None
                  | Some (uni2, r2) \<Rightarrow>
                      if 0xDC00 \<le> uni2 \<and> uni2 \<le> 0xDFFF
                      then cons_chunk (0x10000 + (uni - 0xD800) * 1024 + (uni2 - 0xDC00))
                             (scanstring (drop 6 x))
                      else cons_chunk uni (scanstring x))
               else cons_chunk uni (scanstring x))"
            using d'[simplified] by (simp add: scanstring_unicode)
          let ?pair = "0xD800 \<le> uni \<and> uni \<le> 0xDBFF \<and> take 2 r1 = [92, 117]"
          consider (single) t' where "scanstring r1 = Some (t', r)" "t = uni # t'"
              "\<not> ?pair \<or> (\<exists>uni2 r2. decode_uXXXX (drop 2 r1) = Some (uni2, r2)
                                    \<and> \<not> (0xDC00 \<le> uni2 \<and> uni2 \<le> 0xDFFF))"
            | (pair) t' uni2 r2 where "?pair" "decode_uXXXX (drop 2 r1) = Some (uni2, r2)"
              "0xDC00 \<le> uni2 \<and> uni2 \<le> 0xDFFF" "scanstring (drop 6 r1) = Some (t', r)"
              "t = (0x10000 + (uni - 0xD800) * 1024 + (uni2 - 0xDC00)) # t'"
            using less.prems unfolding s step
            by (auto simp: cons_chunk_Some split: if_splits option.splits)
          then show ?thesis
          proof cases
            case single
            from IH[OF _ single(1)] s obtain b where b: "r1 = b @ r" "b \<noteq> []" "last b = 34"
              "\<forall>r'. scanstring (b @ r') = Some (t', r')" by auto
            have same: "scanstring (?pre @ b @ r') = cons_chunk uni (scanstring (b @ r'))" for r'
            proof (cases "?pair")
              case False
              have "take 2 (b @ r') = [92, 117] \<longleftrightarrow> take 2 (b @ r) = [92, 117]"
              proof (cases b)
                case Nil
                with b show ?thesis by simp
              next
                case (Cons x xs)
                show ?thesis
                proof (cases xs)
                  case Nil
                  with Cons b(3) show ?thesis by simp
                next
                  case (Cons y ys)
                  with \<open>b = x # xs\<close> show ?thesis by simp
                qed
              qed
              with False b(1)
              have np: "\<not> (0xD800 \<le> uni \<and> uni \<le> 0xDBFF \<and> take 2 (b @ r') = [92, 117])"
                by blast
              show ?thesis unfolding step[of "b @ r'"] using np by (simp only: if_False)
            next
              case True
              with single(3) obtain uni2 r2 where
                d2: "decode_uXXXX (drop 2 r1) = Some (uni2, r2)"
                and nl: "\<not> (0xDC00 \<le> uni2 \<and> uni2 \<le> 0xDFFF)" by blast
              from True obtain r1' where r1: "r1 = 92 # 117 # r1'"
                by (cases r1; cases "tl r1") auto
              from decode_uXXXX_consumes[OF d2] r1 obtain g1 g2 g3 g4 where
                r1': "r1' = [g1, g2, g3, g4] @ r2" and nq: "g1 \<noteq> 34" "g2 \<noteq> 34" "g3 \<noteq> 34" "g4 \<noteq> 34"
                and d2': "\<And>r'. decode_uXXXX ([g1, g2, g3, g4] @ r') = Some (uni2, r')"
                by (metis drop0 drop_Suc_Cons numeral_2_eq_2)
              have r1six: "r1 = [92, 117, g1, g2, g3, g4] @ r2" using r1 r1' by simp
              have "b @ r = [92, 117, g1, g2, g3, g4] @ r2" using b(1) r1six by simp
              then obtain us where
                "b = [92, 117, g1, g2, g3, g4] @ us \<or> b @ us = [92, 117, g1, g2, g3, g4]"
                unfolding append_eq_append_conv2 by blast
              moreover have "b @ us \<noteq> [92, 117, g1, g2, g3, g4]"
              proof
                assume e: "b @ us = [92, 117, g1, g2, g3, g4]"
                have "last b \<in> set b" using b(2) by simp
                also have "set b \<subseteq> set (b @ us)" by simp
                finally have "last b \<in> set [92, 117, g1, g2, g3, g4]" unfolding e .
                with b(3) nq show False by auto
              qed
              ultimately have "\<exists>b'. b = [92, 117, g1, g2, g3, g4] @ b'" by blast
              then obtain b' where b': "b = [92, 117, g1, g2, g3, g4] @ b'" by blast
              have dec: "decode_uXXXX (drop 2 (b @ r')) = Some (uni2, b' @ r')"
                using d2'[of "b' @ r'"] b' by simp
              have tk: "take 2 (b @ r') = [92, 117]" using b' by simp
              have c1: "(0xD800 \<le> uni \<and> uni \<le> 0xDBFF \<and> take 2 (b @ r') = [92, 117]) = True"
                using True tk by blast
              have c2: "(0xDC00 \<le> uni2 \<and> uni2 \<le> 0xDFFF) = False"
                using nl by blast
              show ?thesis
                by (simp only: step[of "b @ r'"] c1 c2 dec if_True if_False option.case prod.case)
            qed
            have "s = (?pre @ b) @ r \<and> ?pre @ b \<noteq> [] \<and> last (?pre @ b) = 34
                \<and> (\<forall>r'. scanstring ((?pre @ b) @ r') = Some (t, r'))"
              using s b same single(2) by (simp add: cons_chunk_Some)
            then show ?thesis by blast
          next
            case pair
            from pair(1) obtain r1' where r1: "r1 = 92 # 117 # r1'"
              by (cases r1; cases "tl r1") auto
            from decode_uXXXX_consumes[OF pair(2)] r1 obtain g1 g2 g3 g4 where
              r1': "r1' = [g1, g2, g3, g4] @ r2"
              and d2': "\<And>r'. decode_uXXXX ([g1, g2, g3, g4] @ r') = Some (uni2, r')"
              by (metis drop0 drop_Suc_Cons numeral_2_eq_2)
            let ?six = "[92, 117, g1, g2, g3, g4]"
            have r1six: "r1 = ?six @ r2" using r1 r1' by simp
            then have dr: "drop 6 r1 = r2" by simp
            from IH[OF _ pair(4)[unfolded dr]] s r1six obtain b where b: "r2 = b @ r" "b \<noteq> []"
              "last b = 34" "\<forall>r'. scanstring (b @ r') = Some (t', r')" by auto
            have "scanstring (?pre @ ?six @ b @ r')
                    = cons_chunk (0x10000 + (uni - 0xD800) * 1024 + (uni2 - 0xDC00))
                        (scanstring (b @ r'))" for r'
            proof -
              have tk: "take 2 (?six @ b @ r') = [92, 117]" by simp
              have dec: "decode_uXXXX (drop 2 (?six @ b @ r')) = Some (uni2, b @ r')"
                using d2'[of "b @ r'"] by simp
              have dr6: "drop 6 (?six @ b @ r') = b @ r'" by simp
              have c1: "(0xD800 \<le> uni \<and> uni \<le> 0xDBFF \<and> take 2 (?six @ b @ r') = [92, 117]) = True"
                using pair(1) tk by blast
              have c2: "(0xDC00 \<le> uni2 \<and> uni2 \<le> 0xDFFF) = True"
                using pair(3) by blast
              show ?thesis
                by (simp only: step[of "?six @ b @ r'"] c1 c2 dec dr6 if_True option.case prod.case)
            qed
            then have "s = (?pre @ ?six @ b) @ r \<and> ?pre @ ?six @ b \<noteq> []
                \<and> last (?pre @ ?six @ b) = 34
                \<and> (\<forall>r'. scanstring ((?pre @ ?six @ b) @ r') = Some (t, r'))"
              using s r1six b pair(5) by (simp add: cons_chunk_Some)
            then show ?thesis by blast
          qed
        qed
      qed
    qed
  qed
qed

lemma delimiter_no_digit: "delimiter_next r \<Longrightarrow> no_digit_next r"
  by (auto simp: delimiter_next_def no_digit_next_def json_ws_def is_digit_def)

lemma digits_then_stop:
  assumes "\<forall>c\<in>set ds. is_digit c" and "no_digit_next r"
  shows "takeWhile is_digit (ds @ r) = ds" and "dropWhile is_digit (ds @ r) = r"
proof -
  have t: "takeWhile is_digit r = []" and d: "dropWhile is_digit r = r"
    using assms(2) by (cases r; simp add: no_digit_next_def)+
  show "takeWhile is_digit (ds @ r) = ds"
    using assms(1) t by (simp add: takeWhile_append2)
  show "dropWhile is_digit (ds @ r) = r"
    using assms(1) d by (simp add: dropWhile_append2)
qed

lemma takeWhile_digits: "\<forall>c\<in>set (takeWhile is_digit r). is_digit c"
  by (auto dest: set_takeWhileD)

lemma match_int_part_consumes:
  assumes "match_int_part s = Some (ip, r)"
  shows "s = ip @ r \<and> ip \<noteq> [] \<and> is_digit (hd ip) \<and> is_digit (last ip)
       \<and> (hd ip = 48 \<or> no_digit_next r)
       \<and> (\<forall>r'. hd ip = 48 \<or> no_digit_next r' \<longrightarrow> match_int_part (ip @ r') = Some (ip, r'))"
proof (cases s)
  case Nil
  with assms show ?thesis by (simp add: match_int_part_def)
next
  case (Cons d r0)
  show ?thesis
  proof (cases "d = 48")
    case True
    with assms Cons have "ip = [48]" "r = r0" by (simp_all add: match_int_part_def)
    with Cons True show ?thesis by (simp add: match_int_part_def is_digit_def)
  next
    case False
    with assms Cons have d: "49 \<le> d \<and> d \<le> 57"
      and ip: "ip = d # takeWhile is_digit r0" and r: "r = dropWhile is_digit r0"
      by (auto simp: match_int_part_def split: if_splits)
    have dig: "\<forall>c\<in>set ip. is_digit c"
      using d ip takeWhile_digits[of r0] by (auto simp: is_digit_def)
    have "ip \<noteq> []" using ip by simp
    then have "is_digit (last ip)" "is_digit (hd ip)" using dig by auto
    moreover have "s = ip @ r" using Cons ip r by simp
    moreover have "match_int_part (ip @ r') = Some (ip, r')" if "hd ip = 48 \<or> no_digit_next r'" for r'
    proof -
      from that False ip have "no_digit_next r'" by simp
      from digits_then_stop[OF takeWhile_digits[of r0] this] False d show ?thesis
        by (simp add: match_int_part_def ip)
    qed
    moreover have "no_digit_next r"
      unfolding r no_digit_next_def by (metis hd_dropWhile)
    ultimately show ?thesis using \<open>ip \<noteq> []\<close> by blast
  qed
qed

lemma match_frac_consumes:
  assumes "match_frac s = Some (fp, r)"
  shows "s = 46 # fp @ r \<and> fp \<noteq> [] \<and> is_digit (last fp)
       \<and> (\<forall>r'. no_digit_next r' \<longrightarrow> match_frac (46 # fp @ r') = Some (fp, r'))"
proof -
  from assms obtain d r0 where s: "s = 46 # d # r0" and d: "is_digit d"
    and fp: "fp = d # takeWhile is_digit r0" and r: "r = dropWhile is_digit r0"
    by (auto simp: match_frac_def split: list.splits if_splits)
  have dig: "\<forall>c\<in>set fp. is_digit c" using d fp takeWhile_digits[of r0] by auto
  have "fp \<noteq> []" using fp by simp
  then have "is_digit (last fp)" using dig by auto
  moreover have "s = 46 # fp @ r" using s fp r by simp
  moreover have "match_frac (46 # fp @ r') = Some (fp, r')" if "no_digit_next r'" for r'
    using digits_then_stop[OF takeWhile_digits[of r0] that] d
    by (simp add: match_frac_def fp)
  ultimately show ?thesis using \<open>fp \<noteq> []\<close> by blast
qed

lemma match_frac_None: "r = [] \<or> hd r \<noteq> 46 \<Longrightarrow> match_frac r = None"
  by (auto simp: match_frac_def split: list.splits)

lemma match_exp_None: "r = [] \<or> (hd r \<noteq> 101 \<and> hd r \<noteq> 69) \<Longrightarrow> match_exp r = None"
  by (auto simp: match_exp_def split: list.splits)

lemma match_exp_consumes:
  assumes "match_exp s = Some (ex, r)"
  shows "\<exists>b. s = b @ r \<and> b \<noteq> [] \<and> (hd b = 101 \<or> hd b = 69) \<and> is_digit (last b)
       \<and> (\<forall>r'. no_digit_next r' \<longrightarrow> match_exp (b @ r') = Some (ex, r'))"
proof -
  from assms obtain e r0 where s: "s = e # r0" and e: "e = 101 \<or> e = 69"
    by (cases s) (auto simp: match_exp_def split: if_splits)
  from assms s e obtain sg r1 where r0: "r0 = sg # r1"
    by (cases r0) (auto simp: match_exp_def)
  show ?thesis
  proof (cases "sg = 43 \<or> sg = 45")
    case True
    with assms s e r0 obtain d r2 where r1: "r1 = d # r2" and d: "is_digit d"
      and ex: "ex = (if sg = 45 then - 1 else 1) * int (digits_value (takeWhile is_digit r1))"
      and r: "r = dropWhile is_digit r1"
      by (cases r1) (auto simp: match_exp_def split: if_splits)
    let ?ds = "takeWhile is_digit r1"
    let ?b = "e # sg # ?ds"
    have ds: "?ds = d # takeWhile is_digit r2" using r1 d by simp
    have "is_digit (last ?b)" using ds takeWhile_digits[of r1]
      by (metis last_ConsR last_in_set list.distinct(1))
    moreover have "s = ?b @ r" using s r0 r by simp
    moreover have "match_exp (?b @ r') = Some (ex, r')" if "no_digit_next r'" for r'
    proof -
      from digits_then_stop[OF takeWhile_digits[of r1] that]
      have t: "takeWhile is_digit (?ds @ r') = ?ds" and dr: "dropWhile is_digit (?ds @ r') = r'" .
      obtain x where x: "?ds @ r' = d # x" using ds by simp
      show ?thesis
        using e True d t dr ex unfolding match_exp_def
        by (simp add: x[symmetric] del: takeWhile_append dropWhile_append) (simp add: x d)
    qed
    ultimately show ?thesis using e by (intro exI[of _ ?b]) simp
  next
    case False
    with assms s e r0 have d: "is_digit sg"
      and ex: "ex = int (digits_value (takeWhile is_digit r0))"
      and r: "r = dropWhile is_digit r0"
      by (auto simp: match_exp_def split: if_splits)
    let ?ds = "takeWhile is_digit r0"
    let ?b = "e # ?ds"
    have ds: "?ds = sg # takeWhile is_digit r1" using r0 d by simp
    have "is_digit (last ?b)" using ds takeWhile_digits[of r0]
      by (metis last_ConsR last_in_set list.distinct(1))
    moreover have "s = ?b @ r" using s r by simp
    moreover have "match_exp (?b @ r') = Some (ex, r')" if "no_digit_next r'" for r'
    proof -
      from digits_then_stop[OF takeWhile_digits[of r0] that]
      have t: "takeWhile is_digit (?ds @ r') = ?ds" and dr: "dropWhile is_digit (?ds @ r') = r'" .
      obtain x where x: "?ds @ r' = sg # x" using ds by simp
      show ?thesis
        using e False d t dr ex unfolding match_exp_def
        by (simp add: x[symmetric] del: takeWhile_append dropWhile_append) (simp add: x d False)
    qed
    ultimately show ?thesis using e by (intro exI[of _ ?b]) simp
  qed
qed

lemma delimiter_no_frac: "delimiter_next r \<Longrightarrow> match_frac r = None"
  by (rule match_frac_None) (auto simp: delimiter_next_def json_ws_def)

lemma delimiter_no_exp: "delimiter_next r \<Longrightarrow> match_exp r = None"
  by (rule match_exp_None) (auto simp: delimiter_next_def json_ws_def)

lemma match_number_consumes:
  assumes "match_number s = Some (v, r)"
  shows "\<exists>b. s = b @ r \<and> b \<noteq> [] \<and> (hd b = 45 \<or> is_digit (hd b)) \<and> is_digit (last b)
       \<and> (\<forall>r'. delimiter_next r' \<longrightarrow> match_number (b @ r') = Some (v, r'))"
proof -
  define neg where "neg \<longleftrightarrow> s \<noteq> [] \<and> hd s = 45"
  define p :: pystr where "p = (if neg then [45] else [])"
  define s1 where "s1 = (if neg then tl s else s)"
  define sgn :: int where "sgn = (if neg then - 1 else 1)"
  define F where "F = (\<lambda>ip x.
      case match_frac x of
         None \<Rightarrow>
           (case match_exp x of
              None \<Rightarrow> Some (JInt (sgn * int (digits_value ip)), x)
            | Some (ex, r3) \<Rightarrow> Some (JFloat (sgn * int (digits_value ip)) ex, r3))
       | Some (fp, r2) \<Rightarrow>
           (case match_exp r2 of
              None \<Rightarrow> Some (JFloat (sgn * int (digits_value (ip @ fp))) (- int (length fp)), r2)
            | Some (ex, r3) \<Rightarrow>
                Some (JFloat (sgn * int (digits_value (ip @ fp))) (ex - int (length fp)), r3)))"
  have s: "s = p @ s1" by (cases s) (auto simp: p_def s1_def neg_def)
  have mn: "match_number (p @ x) =
      (case match_int_part x of None \<Rightarrow> None | Some (ip, r1) \<Rightarrow> F ip r1)"
    if "x = [] \<or> hd x \<noteq> 45" for x
  proof (cases neg)
    case True
    then show ?thesis
      by (simp add: match_number_def p_def sgn_def F_def split: option.splits)
  next
    case False
    with that show ?thesis
      by (cases x) (simp_all add: match_number_def p_def sgn_def F_def split: option.splits)
  qed
  have s1_45: "s1 = [] \<or> hd s1 \<noteq> 45 \<or> neg" by (auto simp: s1_def neg_def)
  have orig: "match_number s =
      (case match_int_part s1 of None \<Rightarrow> None | Some (ip, r1) \<Rightarrow> F ip r1)"
  proof (cases neg)
    case True
    then obtain t where "s = 45 # t" by (cases s) (auto simp: neg_def)
    with True show ?thesis
      by (simp add: match_number_def s1_def sgn_def F_def split: option.splits)
  next
    case False
    with s1_45 mn[of s1] s p_def show ?thesis by simp
  qed
  from assms orig obtain ip r1 where ipm: "match_int_part s1 = Some (ip, r1)"
    and res: "F ip r1 = Some (v, r)"
    by (auto split: option.splits)
  from match_int_part_consumes[OF ipm] have
    s1: "s1 = ip @ r1" and ipne: "ip \<noteq> []" and iph: "is_digit (hd ip)" and ipl: "is_digit (last ip)"
    and ip': "\<And>r'. hd ip = 48 \<or> no_digit_next r' \<Longrightarrow> match_int_part (ip @ r') = Some (ip, r')"
    by blast+
  have hd_ip: "hd ip \<noteq> 45" using iph by (auto simp: is_digit_def)
  have front: "match_number (p @ ip @ x) = F ip x" if "no_digit_next x" for x
  proof -
    have "ip @ x = [] \<or> hd (ip @ x) \<noteq> 45" using ipne hd_ip by simp
    from mn[OF this] ip'[of x] that show ?thesis by simp
  qed
  have hdb: "hd (p @ ip @ y) = 45 \<or> is_digit (hd (p @ ip @ y))" for y
    using ipne iph by (auto simp: p_def)
  show ?thesis
  proof (cases "match_frac r1")
    case None
    show ?thesis
    proof (cases "match_exp r1")
      case n2: None
      with None res have v: "v = JInt (sgn * int (digits_value ip))" and r: "r = r1"
        by (simp_all add: F_def)
      let ?b = "p @ ip"
      have "match_number (?b @ r') = Some (v, r')" if "delimiter_next r'" for r'
        using front[OF delimiter_no_digit[OF that]] delimiter_no_frac[OF that]
              delimiter_no_exp[OF that] v
        by (simp add: F_def)
      moreover have "s = ?b @ r" using s s1 r by simp
      moreover have "is_digit (last ?b)" using ipne ipl by simp
      ultimately show ?thesis using hdb[of "[]"] ipne by (intro exI[of _ ?b]) simp
    next
      case (Some a)
      then obtain ex r3 where e: "match_exp r1 = Some (ex, r3)" by (cases a) auto
      with None res have v: "v = JFloat (sgn * int (digits_value ip)) ex" and r: "r = r3"
        by (simp_all add: F_def)
      from match_exp_consumes[OF e] obtain be where be: "r1 = be @ r3" "be \<noteq> []"
        "hd be = 101 \<or> hd be = 69" "is_digit (last be)"
        "\<And>r'. no_digit_next r' \<Longrightarrow> match_exp (be @ r') = Some (ex, r')" by blast
      let ?b = "p @ ip @ be"
      have nd: "no_digit_next (be @ y)" for y
        using be(2,3) by (auto simp: no_digit_next_def is_digit_def)
      have nf: "match_frac (be @ y) = None" for y
        using be(2,3) by (intro match_frac_None) auto
      have "match_number (?b @ r') = Some (v, r')" if "delimiter_next r'" for r'
        using front[OF nd[of r']] nf[of r'] be(5)[OF delimiter_no_digit[OF that]] v
        by (simp add: F_def)
      moreover have "s = ?b @ r" using s s1 r be(1) by simp
      moreover have "is_digit (last ?b)" using be(2,4) by simp
      ultimately show ?thesis using hdb[of be] ipne by (intro exI[of _ ?b]) simp
    qed
  next
    case (Some a)
    then obtain fp r2 where f: "match_frac r1 = Some (fp, r2)" by (cases a) auto
    from match_frac_consumes[OF f] have fr: "r1 = 46 # fp @ r2" "fp \<noteq> []" "is_digit (last fp)"
      "\<And>r'. no_digit_next r' \<Longrightarrow> match_frac (46 # fp @ r') = Some (fp, r')" by blast+
    have nd46: "no_digit_next (46 # y)" for y
      by (simp add: no_digit_next_def is_digit_def)
    show ?thesis
    proof (cases "match_exp r2")
      case None
      with f res have v: "v = JFloat (sgn * int (digits_value (ip @ fp))) (- int (length fp))"
        and r: "r = r2" by (simp_all add: F_def)
      let ?b = "p @ ip @ 46 # fp"
      have "match_number (?b @ r') = Some (v, r')" if "delimiter_next r'" for r'
        using front[OF nd46[of "fp @ r'"]] fr(4)[OF delimiter_no_digit[OF that]]
              delimiter_no_exp[OF that] v
        by (simp add: F_def)
      moreover have "s = ?b @ r" using s s1 r fr(1) by simp
      moreover have "is_digit (last ?b)" using fr(2,3) by simp
      ultimately show ?thesis using hdb[of "46 # fp"] ipne by (intro exI[of _ ?b]) simp
    next
      case (Some a2)
      then obtain ex r3 where e: "match_exp r2 = Some (ex, r3)" by (cases a2) auto
      with f res have v: "v = JFloat (sgn * int (digits_value (ip @ fp))) (ex - int (length fp))"
        and r: "r = r3" by (simp_all add: F_def)
      from match_exp_consumes[OF e] obtain be where be: "r2 = be @ r3" "be \<noteq> []"
        "hd be = 101 \<or> hd be = 69" "is_digit (last be)"
        "\<And>r'. no_digit_next r' \<Longrightarrow> match_exp (be @ r') = Some (ex, r')" by blast
      let ?b = "p @ ip @ 46 # fp @ be"
      have nd: "no_digit_next (be @ y)" for y
        using be(2,3) by (auto simp: no_digit_next_def is_digit_def)
      have "match_number (?b @ r') = Some (v, r')" if "delimiter_next r'" for r'
        using front[OF nd46[of "fp @ be @ r'"]] fr(4)[OF nd[of r']]
              be(5)[OF delimiter_no_digit[OF that]] v
        by (simp add: F_def)
      moreover have "s = ?b @ r" using s s1 r fr(1) be(1) by simp
      moreover have "is_digit (last ?b)" using be(2,4) by simp
      ultimately show ?thesis using hdb[of "46 # fp @ be"] ipne by (intro exI[of _ ?b]) simp
    qed
  qed
qed

lemma skip_ws_split: "\<exists>w. x = w @ skip_ws x \<and> (\<forall>c\<in>set w. json_ws c)"
  unfolding skip_ws_def
  by (rule exI[of _ "takeWhile json_ws x"]) (auto dest: set_takeWhileD)

lemma skip_ws_append_ws: "\<forall>c\<in>set w. json_ws c \<Longrightarrow> skip_ws (w @ x) = skip_ws x"
  unfolding skip_ws_def by (simp add: dropWhile_append2)

lemma skip_ws_stop: "x = [] \<or> \<not> json_ws (hd x) \<Longrightarrow> skip_ws x = x"
  unfolding skip_ws_def by (cases x) auto

lemma skip_ws_hd: "skip_ws x = d # ds \<Longrightarrow> \<not> json_ws d"
  unfolding skip_ws_def by (metis hd_dropWhile list.sel(1) list.distinct(1))

lemma skip_ws_to: "\<forall>c\<in>set w. json_ws c \<Longrightarrow> \<not> json_ws d \<Longrightarrow> skip_ws (w @ d # t) = d # t"
  by (simp add: skip_ws_append_ws skip_ws_stop)

lemma json_ws_py_isspace: "json_ws c \<Longrightarrow> py_isspace c"
  by (auto simp: json_ws_def py_isspace_def)

lemma of_option_Returns [simp]: "of_option x = Returns a \<longleftrightarrow> x = Some a"
  by (cases x) (simp_all add: of_option_def)

lemma map_outcome_Returns:
  "map_outcome f x = Returns y \<longleftrightarrow> (\<exists>a. x = Returns a \<and> y = f a)"
  by (cases x) auto

lemma scan_okI:
  assumes "s = b @ r" "b \<noteq> []" "\<not> py_isspace (hd b)" "\<not> py_isspace (last b)"
    "\<And>r'. delimiter_next r' \<Longrightarrow> scan_once m k (b @ r') = Returns (v, r')"
  shows "scan_ok m k s v r"
  unfolding scan_ok_def using assms by blast

lemma scan_once_Cons:
  "scan_once m k (c # cs) =
     (if c = 34 then map_outcome (\<lambda>(t, r). (JStr t, r)) (of_option (scanstring cs))
      else if c = 123 then
        (if k = 0 then Raises RecursionError_object
         else
           (case skip_ws cs of
              [] \<Rightarrow> JSONDecodeError
            | d # ds \<Rightarrow>
                if d = 125 then Returns (JObj [], ds)
                else if d = 34
                then map_outcome (\<lambda>(ps, r). (JObj (dict ps), r)) (JSONObject m (k - 1) ds)
                else JSONDecodeError))
      else if c = 91 then
        (if k = 0 then Raises RecursionError_array
         else
           (case skip_ws cs of
              [] \<Rightarrow> JSONDecodeError
            | d # ds \<Rightarrow>
                if d = 93 then Returns (JArr [], ds)
                else map_outcome (\<lambda>(vs, r). (JArr vs, r)) (JSONArray m (k - 1) (d # ds))))
      else if prefix (ustr ''null'') (c # cs) then Returns (JNull, drop 4 (c # cs))
      else if prefix (ustr ''true'') (c # cs) then Returns (JBool True, drop 4 (c # cs))
      else if prefix (ustr ''false'') (c # cs) then Returns (JBool False, drop 5 (c # cs))
      else scan_number m (c # cs))"
  by (simp add: scan_once.simps[of m k "c # cs"])

lemma scan_once_Nil: "scan_once m k [] = JSONDecodeError"
  by (simp add: scan_once.simps[of m k "[]"])

lemma scan_once_string:
  assumes "scanstring cs = Some (t, r)"
  shows "scan_ok m k (34 # cs) (JStr t) r"
proof -
  from scanstring_consumes[OF assms] obtain b where b: "cs = b @ r" "b \<noteq> []" "last b = 34"
    "\<forall>r'. scanstring (b @ r') = Some (t, r')" by blast
  show ?thesis
  proof (rule scan_okI[of _ "34 # b"])
    show "34 # cs = (34 # b) @ r" using b by simp
    show "\<not> py_isspace (last (34 # b))" using b by (simp add: py_isspace_def)
    show "scan_once m k ((34 # b) @ r') = Returns (JStr t, r')" for r'
      using b by (simp add: scan_once_Cons of_option_def)
  qed (simp_all add: py_isspace_def)
qed

lemma match_number_not_start:
  assumes "c \<noteq> 45" "\<not> is_digit c"
  shows "match_number (c # cs) = None"
proof -
  have "match_int_part (c # cs) = None"
    using assms(2) by (auto simp: match_int_part_def is_digit_def)
  with assms(1) show ?thesis by (simp add: match_number_def)
qed

lemma match_number_minus_I: "match_number (45 # 73 # cs) = None"
  by (simp add: match_number_def match_int_part_def)

lemma scan_once_literal:
  assumes "c \<noteq> 34" "c \<noteq> 123" "c \<noteq> 91"
    and "scan_once m k (c # cs) = Returns (v, r)"
    and "prefix (ustr ''null'') (c # cs) \<or> prefix (ustr ''true'') (c # cs)
         \<or> prefix (ustr ''false'') (c # cs)"
  shows "scan_ok m k (c # cs) v r"
proof -
  consider (n) "prefix (ustr ''null'') (c # cs)"
    | (t) "\<not> prefix (ustr ''null'') (c # cs)" "prefix (ustr ''true'') (c # cs)"
    | (f) "\<not> prefix (ustr ''null'') (c # cs)" "\<not> prefix (ustr ''true'') (c # cs)"
          "prefix (ustr ''false'') (c # cs)"
    using assms(5) by blast
  then show ?thesis
  proof cases
    case n
    then obtain x where x: "c # cs = ustr ''null'' @ x" by (auto simp: prefix_def)
    with assms n have "v = JNull" "r = x" by (simp_all add: scan_once_Cons ustr_def)
    then show ?thesis
      by (intro scan_okI[of _ "ustr ''null''"])
         (simp_all add: x ustr_def py_isspace_def scan_once_Cons)
  next
    case t
    then obtain x where x: "c # cs = ustr ''true'' @ x" by (auto simp: prefix_def)
    with assms t have "v = JBool True" "r = x" by (simp_all add: scan_once_Cons ustr_def)
    then show ?thesis
      by (intro scan_okI[of _ "ustr ''true''"])
         (simp_all add: x ustr_def py_isspace_def scan_once_Cons)
  next
    case f
    then obtain x where x: "c # cs = ustr ''false'' @ x" by (auto simp: prefix_def)
    with assms f have "v = JBool False" "r = x" by (simp_all add: scan_once_Cons ustr_def)
    then show ?thesis
      by (intro scan_okI[of _ "ustr ''false''"])
         (simp_all add: x ustr_def py_isspace_def scan_once_Cons)
  qed
qed

lemma int_digits_front:
  "b \<noteq> [] \<Longrightarrow> int_digits (b @ r) r = length b - (if hd b = 45 then 1 else 0)"
  by (simp add: int_digits_def)

lemma scan_number_matched:
  assumes "match_number s = Some (v, r)" and "scan_number m s = Returns (v', r')"
  shows "scan_ok m k s v' r'"
proof -
  from match_number_consumes[OF assms(1)] obtain b where b: "s = b @ r" "b \<noteq> []"
    "hd b = 45 \<or> is_digit (hd b)" "is_digit (last b)"
    "\<And>x. delimiter_next x \<Longrightarrow> match_number (b @ x) = Some (v, x)" by blast
  from assms have eq: "v' = v" "r' = r"
    and small: "\<not> (is_JInt v \<and> 0 < m \<and> m < int_digits s r)"
    by (auto simp: scan_number_def split: if_splits)
  obtain h t where ht: "b = h # t" using b(2) by (cases b) auto
  with b(3) have h: "h = 45 \<or> is_digit h" by simp
  have same: "int_digits (b @ x) x = int_digits s r" for x
    unfolding b(1) using b(2) by (simp add: int_digits_front)
  show ?thesis
    unfolding eq
  proof (rule scan_okI[of _ b])
    show "\<not> py_isspace (hd b)" using b(3) by (auto simp: py_isspace_def is_digit_def)
    show "\<not> py_isspace (last b)" using b(4) by (auto simp: py_isspace_def is_digit_def)
    show "scan_once m k (b @ x) = Returns (v, x)" if "delimiter_next x" for x
    proof -
      have "scan_number m (b @ x) = Returns (v, x)"
        using b(5)[OF that] small same[of x] by (simp add: scan_number_def)
      moreover have "scan_once m k (b @ x) = scan_number m (b @ x)"
        using h unfolding ht by (auto simp: scan_once_Cons ustr_def is_digit_def)
      ultimately show ?thesis by simp
    qed
  qed (use b in simp_all)
qed

lemma scan_once_constant:
  assumes "match_number s = None" "scan_constant s = Some (v, r)"
    and "s = c # cs" "c \<noteq> 34" "c \<noteq> 123" "c \<noteq> 91"
  shows "scan_ok m k s v r"
proof -
  consider (nan) "prefix (ustr ''NaN'') s"
    | (inf) "\<not> prefix (ustr ''NaN'') s" "prefix (ustr ''Infinity'') s"
    | (ninf) "\<not> prefix (ustr ''NaN'') s" "\<not> prefix (ustr ''Infinity'') s"
             "prefix (ustr ''-Infinity'') s"
    using assms(2) by (auto simp: scan_constant_def split: if_splits)
  then show ?thesis
  proof cases
    case nan
    then obtain x where x: "s = ustr ''NaN'' @ x" by (auto simp: prefix_def)
    with assms(2) nan have "v = JNaN" "r = x" by (simp_all add: scan_constant_def ustr_def)
    then show ?thesis
      by (intro scan_okI[of _ "ustr ''NaN''"])
         (simp_all add: x ustr_def py_isspace_def scan_once_Cons scan_number_def
            match_number_not_start is_digit_def scan_constant_def)
  next
    case inf
    then obtain x where x: "s = ustr ''Infinity'' @ x" by (auto simp: prefix_def)
    with assms(2) inf have "v = JInfinity False" "r = x" by (simp_all add: scan_constant_def ustr_def)
    then show ?thesis
      by (intro scan_okI[of _ "ustr ''Infinity''"])
         (simp_all add: x ustr_def py_isspace_def scan_once_Cons scan_number_def
            match_number_not_start is_digit_def scan_constant_def)
  next
    case ninf
    then obtain x where x: "s = ustr ''-Infinity'' @ x" by (auto simp: prefix_def)
    with assms(2) ninf have "v = JInfinity True" "r = x" by (simp_all add: scan_constant_def ustr_def)
    then show ?thesis
      by (intro scan_okI[of _ "ustr ''-Infinity''"])
         (simp_all add: x ustr_def py_isspace_def scan_once_Cons scan_number_def
            match_number_minus_I scan_constant_def)
  qed
qed

lemma scan_once_step:
  assumes IHarr: "\<And>x vs r j. length x < length s \<Longrightarrow> JSONArray m j x = Returns (vs, r)
                    \<Longrightarrow> arr_ok m j x vs r"
    and IHobj: "\<And>x ps r j. length x < length s \<Longrightarrow> JSONObject m j x = Returns (ps, r)
                    \<Longrightarrow> obj_ok m j x ps r"
    and scan: "scan_once m k s = Returns (v, r)"
  shows "scan_ok m k s v r"
proof (cases s)
  case Nil
  with scan show ?thesis by (simp add: scan_once_Nil)
next
  case (Cons c cs)
  obtain w where w: "cs = w @ skip_ws cs" "\<forall>x\<in>set w. json_ws x"
    using skip_ws_split[of cs] by blast
  consider (str) "c = 34" | (obj) "c = 123" | (arr) "c = 91"
    | (lit) "c \<noteq> 34" "c \<noteq> 123" "c \<noteq> 91"
        "prefix (ustr ''null'') s \<or> prefix (ustr ''true'') s \<or> prefix (ustr ''false'') s"
    | (num) "c \<noteq> 34" "c \<noteq> 123" "c \<noteq> 91"
        "\<not> (prefix (ustr ''null'') s \<or> prefix (ustr ''true'') s \<or> prefix (ustr ''false'') s)"
    by blast
  then show ?thesis
  proof cases
    case str
    with scan Cons obtain t where "scanstring cs = Some (t, r)" "v = JStr t"
      by (auto simp: scan_once_Cons map_outcome_Returns)
    with scan_once_string[of cs t r] str Cons show ?thesis by simp
  next
    case lit
    with scan_once_literal[of c m k cs v r] scan Cons show ?thesis by simp
  next
    case num
    with scan Cons have sn: "scan_number m s = Returns (v, r)"
      by (simp add: scan_once_Cons)
    show ?thesis
    proof (cases "match_number s")
      case None
      with sn have "scan_constant s = Some (v, r)"
        by (simp add: scan_number_def)
      from scan_once_constant[OF None this Cons num(1,2,3)] show ?thesis .
    next
      case (Some res)
      then obtain v0 r0 where "match_number s = Some (v0, r0)" by (cases res) auto
      from scan_number_matched[OF this sn] show ?thesis .
    qed
  next
    case obj
    from scan obj Cons have k: "k \<noteq> 0"
      by (auto simp: scan_once_Cons split: if_splits)
    from scan obj Cons k obtain d ds where d: "skip_ws cs = d # ds"
      by (cases "skip_ws cs") (auto simp: scan_once_Cons)
    have nws: "\<not> json_ws d" using d by (rule skip_ws_hd)
    have cs: "cs = w @ d # ds" using w d by simp
    show ?thesis
    proof (cases "d = 125")
      case True
      with scan obj Cons d k have v: "v = JObj []" "r = ds" by (simp_all add: scan_once_Cons)
      show ?thesis
      proof (rule scan_okI[of _ "123 # w @ [125]"])
        show "s = (123 # w @ [125]) @ r" using Cons obj cs True v by simp
        show "scan_once m k ((123 # w @ [125]) @ r') = Returns (v, r')" for r'
          using skip_ws_to[OF w(2), of 125 r'] v k
          by (simp add: scan_once_Cons json_ws_def)
      qed (simp_all add: py_isspace_def)
    next
      case False
      with scan obj Cons d k obtain ps where q: "d = 34"
        and o: "JSONObject m (k - 1) ds = Returns (ps, r)" and v: "v = JObj (dict ps)"
        by (auto simp: scan_once_Cons map_outcome_Returns split: if_splits)
      have "length ds < length s" using Cons cs by simp
      from IHobj[OF this o] obtain b where b: "ds = b @ r" "b \<noteq> []" "last b = 125"
        "\<forall>r'. JSONObject m (k - 1) (b @ r') = Returns (ps, r')" unfolding obj_ok_def by blast
      show ?thesis
      proof (rule scan_okI[of _ "123 # w @ 34 # b"])
        show "s = (123 # w @ 34 # b) @ r" using Cons obj cs q b by simp
        show "\<not> py_isspace (last (123 # w @ 34 # b))" using b by (simp add: py_isspace_def)
        show "scan_once m k ((123 # w @ 34 # b) @ r') = Returns (v, r')" for r'
          using skip_ws_to[OF w(2), of 34 "b @ r'"] v b(4) k
          by (simp add: scan_once_Cons json_ws_def)
      qed (simp_all add: py_isspace_def)
    qed
  next
    case arr
    from scan arr Cons have k: "k \<noteq> 0"
      by (auto simp: scan_once_Cons split: if_splits)
    from scan arr Cons k obtain d ds where d: "skip_ws cs = d # ds"
      by (cases "skip_ws cs") (auto simp: scan_once_Cons)
    have nws: "\<not> json_ws d" using d by (rule skip_ws_hd)
    have cs: "cs = w @ d # ds" using w d by simp
    show ?thesis
    proof (cases "d = 93")
      case True
      with scan arr Cons d k have v: "v = JArr []" "r = ds" by (simp_all add: scan_once_Cons)
      show ?thesis
      proof (rule scan_okI[of _ "91 # w @ [93]"])
        show "s = (91 # w @ [93]) @ r" using Cons arr cs True v by simp
        show "scan_once m k ((91 # w @ [93]) @ r') = Returns (v, r')" for r'
          using skip_ws_to[OF w(2), of 93 r'] v k
          by (simp add: scan_once_Cons json_ws_def)
      qed (simp_all add: py_isspace_def)
    next
      case False
      with scan arr Cons d k obtain vs where a: "JSONArray m (k - 1) (d # ds) = Returns (vs, r)"
        and v: "v = JArr vs"
        by (auto simp: scan_once_Cons map_outcome_Returns)
      have "length (d # ds) < length s" using Cons cs by simp
      from IHarr[OF this a] obtain b where b: "d # ds = b @ r" "b \<noteq> []" "last b = 93"
        "\<forall>r'. JSONArray m (k - 1) (b @ r') = Returns (vs, r')" unfolding arr_ok_def by blast
      obtain t where t: "b = d # t" using b(1,2) by (cases b) auto
      show ?thesis
      proof (rule scan_okI[of _ "91 # w @ b"])
        show "s = (91 # w @ b) @ r" using Cons arr cs b by simp
        show "\<not> py_isspace (last (91 # w @ b))" using b by (simp add: py_isspace_def)
        show "scan_once m k ((91 # w @ b) @ r') = Returns (v, r')" for r'
          using skip_ws_to[OF w(2) nws, of "t @ r'"] v b(4) False k
          by (simp add: scan_once_Cons t)
      qed (simp_all add: py_isspace_def)
    qed
  qed
qed

lemma delimiter_after_ws:
  assumes "\<forall>c\<in>set w. json_ws c" and "d = 44 \<or> d = 93 \<or> d = 125"
  shows "delimiter_next (w @ d # t)"
  using assms by (cases w) (auto simp: delimiter_next_def)

lemma JSONArray_after:
  assumes "scan_once m k s = Returns (v, r1)" and "length r1 < length s"
  shows "JSONArray m k s =
     (case skip_ws r1 of
        [] \<Rightarrow> JSONDecodeError
      | d # ds \<Rightarrow>
          if d = 93 then Returns ([v], ds)
          else if d = 44
          then map_outcome (\<lambda>(vs, r'). (v # vs, r')) (JSONArray m k (skip_ws ds))
          else JSONDecodeError)"
  using assms by (simp add: JSONArray.simps[of m k s])

lemma JSONArray_step:
  assumes P: "\<And>v r. scan_once m k s = Returns (v, r) \<Longrightarrow> scan_ok m k s v r"
    and IHarr: "\<And>x vs r. length x < length s \<Longrightarrow> JSONArray m k x = Returns (vs, r)
                  \<Longrightarrow> arr_ok m k x vs r"
    and arr: "JSONArray m k s = Returns (vs, r)"
  shows "arr_ok m k s vs r"
proof -
  from arr obtain v r1 where sc: "scan_once m k s = Returns (v, r1)"
    and len: "length r1 < length s"
    by (auto simp: JSONArray.simps[of m k s] split: outcome.splits if_splits)
  from P[OF sc] obtain b1 where b1: "s = b1 @ r1" "b1 \<noteq> []" "\<not> py_isspace (hd b1)"
    "\<And>r'. delimiter_next r' \<Longrightarrow> scan_once m k (b1 @ r') = Returns (v, r')"
    unfolding scan_ok_def by blast
  have hd1: "\<not> json_ws (hd b1)" using b1(3) json_ws_py_isspace by blast
  note unf = arr[unfolded JSONArray_after[OF sc len]]
  from unf obtain d ds where d: "skip_ws r1 = d # ds"
    by (cases "skip_ws r1") auto
  obtain w1 where w1: "r1 = w1 @ d # ds" "\<forall>x\<in>set w1. json_ws x"
    using skip_ws_split[of r1] d by auto
  have again: "JSONArray m k (b1 @ w1 @ d # t) =
      (if d = 93 then Returns ([v], t)
       else if d = 44
       then map_outcome (\<lambda>(vs, r'). (v # vs, r')) (JSONArray m k (skip_ws t))
       else JSONDecodeError)" if "d = 44 \<or> d = 93" for t
  proof -
    have dl: "delimiter_next (w1 @ d # t)" using that by (intro delimiter_after_ws w1(2)) auto
    have nws: "\<not> json_ws d" using that by (auto simp: json_ws_def)
    have "length (w1 @ d # t) < length (b1 @ w1 @ d # t)" using b1(2) by simp
    from JSONArray_after[OF b1(4)[OF dl] this] show ?thesis
      by (simp add: skip_ws_to[OF w1(2) nws])
  qed
  show ?thesis
  proof (cases "d = 93")
    case True
    with unf d have v: "vs = [v]" "r = ds" by simp_all
    have "JSONArray m k ((b1 @ w1 @ [93]) @ r') = Returns (vs, r')" for r'
      using again[of r'] True v by simp
    moreover have "s = (b1 @ w1 @ [93]) @ r" using b1(1) w1(1) True v by simp
    ultimately show ?thesis
      unfolding arr_ok_def using b1(2) hd1 by (intro exI[of _ "b1 @ w1 @ [93]"]) simp
  next
    case False
    with unf d obtain vs' where c: "d = 44"
      and a2: "JSONArray m k (skip_ws ds) = Returns (vs', r)" and v: "vs = v # vs'"
      by (auto simp: map_outcome_Returns split: if_splits)
    obtain w2 where w2: "ds = w2 @ skip_ws ds" "\<forall>x\<in>set w2. json_ws x"
      using skip_ws_split[of ds] by blast
    have "length ds = length w2 + length (skip_ws ds)"
      using w2(1) by (metis length_append)
    then have "length (skip_ws ds) < length s"
      using b1(1) w1(1) by simp
    from IHarr[OF this a2] obtain b2 where b2: "skip_ws ds = b2 @ r" "b2 \<noteq> []"
      "\<not> json_ws (hd b2)" "last b2 = 93" "\<forall>r'. JSONArray m k (b2 @ r') = Returns (vs', r')"
      unfolding arr_ok_def by blast
    let ?b = "b1 @ w1 @ 44 # w2 @ b2"
    have "JSONArray m k (?b @ r') = Returns (vs, r')" for r'
    proof -
      have "skip_ws (w2 @ b2 @ r') = b2 @ r'"
        using b2(2,3) by (simp add: skip_ws_append_ws[OF w2(2)] skip_ws_stop)
      with again[of "w2 @ b2 @ r'"] c b2(5) v show ?thesis by simp
    qed
    moreover have "s = ?b @ r" using b1(1) w1(1) w2(1) b2(1) c by simp
    ultimately show ?thesis
      unfolding arr_ok_def using b1(2) b2(2,4) hd1 by (intro exI[of _ ?b]) simp
  qed
qed

lemma JSONObject_step:
  assumes IHscan: "\<And>x v r. length x < length s \<Longrightarrow> scan_once m k x = Returns (v, r)
                     \<Longrightarrow> scan_ok m k x v r"
    and IHobj: "\<And>x ps r. length x < length s \<Longrightarrow> JSONObject m k x = Returns (ps, r)
                     \<Longrightarrow> obj_ok m k x ps r"
    and obj: "JSONObject m k s = Returns (ps, r)"
  shows "obj_ok m k s ps r"
proof -
  from obj obtain key r0 where k: "scanstring s = Some (key, r0)"
    by (auto simp: JSONObject.simps[of m k s] split: option.splits)
  from scanstring_consumes[OF k] obtain bk where bk: "s = bk @ r0" "bk \<noteq> []"
    "\<forall>r'. scanstring (bk @ r') = Some (key, r')" by blast
  from obj k obtain r1 where c: "skip_ws r0 = 58 # r1"
    by (cases "skip_ws r0") (auto simp: JSONObject.simps[of m k s] split: if_splits)
  obtain w0 where w0: "r0 = w0 @ 58 # r1" "\<forall>x\<in>set w0. json_ws x"
    using skip_ws_split[of r0] c by auto
  from obj k c obtain v r2 where sc: "scan_once m k (skip_ws r1) = Returns (v, r2)"
    and len: "length r2 < length s"
    by (auto simp: JSONObject.simps[of m k s] split: outcome.splits if_splits)
  obtain w1 where w1: "r1 = w1 @ skip_ws r1" "\<forall>x\<in>set w1. json_ws x"
    using skip_ws_split[of r1] by blast
  have "length r1 = length w1 + length (skip_ws r1)" using w1(1) by (metis length_append)
  then have "length (skip_ws r1) < length s" using bk(1,2) w0(1) by simp
  from IHscan[OF this sc] obtain bv where bv: "skip_ws r1 = bv @ r2" "bv \<noteq> []"
    "\<not> py_isspace (hd bv)"
    "\<And>r'. delimiter_next r' \<Longrightarrow> scan_once m k (bv @ r') = Returns (v, r')"
    unfolding scan_ok_def by blast
  have hdv: "\<not> json_ws (hd bv)" using bv(3) json_ws_py_isspace by blast
  from obj k c sc len obtain d ds where d: "skip_ws r2 = d # ds"
    by (cases "skip_ws r2") (auto simp: JSONObject.simps[of m k s])
  obtain w2 where w2: "r2 = w2 @ d # ds" "\<forall>x\<in>set w2. json_ws x"
    using skip_ws_split[of r2] d by auto
  have rest: "(if d = 125 then Returns ([(key, v)], ds)
               else if d = 44 then
                 (case skip_ws ds of
                    [] \<Rightarrow> JSONDecodeError
                  | q # ds' \<Rightarrow>
                      if q = 34
                      then map_outcome (\<lambda>(ps, r'). ((key, v) # ps, r')) (JSONObject m k ds')
                      else JSONDecodeError)
               else JSONDecodeError) = Returns (ps, r)"
    using obj k c sc len d by (simp add: JSONObject.simps[of m k s])
  let ?front = "bk @ w0 @ 58 # w1 @ bv @ w2"
  have s: "s = ?front @ d # ds"
    using bk(1) w0(1) w1(1) bv(1) w2(1) by (metis append.assoc append_Cons)
  have again: "JSONObject m k (?front @ d # t) =
      (if d = 125 then Returns ([(key, v)], t)
       else if d = 44 then
         (case skip_ws t of
            [] \<Rightarrow> JSONDecodeError
          | q # ds' \<Rightarrow>
              if q = 34
              then map_outcome (\<lambda>(ps, r'). ((key, v) # ps, r')) (JSONObject m k ds')
              else JSONDecodeError)
       else JSONDecodeError)" if "d = 44 \<or> d = 125" for t
  proof -
    have nws: "\<not> json_ws d" using that by (auto simp: json_ws_def)
    have dl: "delimiter_next (w2 @ d # t)" using that by (intro delimiter_after_ws w2(2)) auto
    have 1: "scanstring (?front @ d # t) = Some (key, w0 @ 58 # w1 @ bv @ w2 @ d # t)"
      using bk(3) by simp
    have 2: "skip_ws (w0 @ 58 # w1 @ bv @ w2 @ d # t) = 58 # w1 @ bv @ w2 @ d # t"
      by (rule skip_ws_to[OF w0(2)]) (simp add: json_ws_def)
    have 3: "skip_ws (w1 @ bv @ w2 @ d # t) = bv @ w2 @ d # t"
      using bv(2) hdv by (simp add: skip_ws_append_ws[OF w1(2)] skip_ws_stop)
    have 4: "scan_once m k (bv @ w2 @ d # t) = Returns (v, w2 @ d # t)"
      using bv(4)[OF dl] .
    have 5: "length (w2 @ d # t) < length (?front @ d # t)" using bk(2) by simp
    have 6: "skip_ws (w2 @ d # t) = d # t" by (rule skip_ws_to[OF w2(2) nws])
    show ?thesis
      by (subst JSONObject.simps) (simp only: 1 2 3 4 5 6 option.case outcome.case prod.case
            list.case if_True refl)
  qed
  show ?thesis
  proof (cases "d = 125")
    case True
    with rest have v: "ps = [(key, v)]" "r = ds" by simp_all
    have "JSONObject m k ((?front @ [125]) @ r') = Returns (ps, r')" for r'
      using again[of r'] True v by simp
    moreover have "s = (?front @ [125]) @ r" using s True v by simp
    ultimately show ?thesis
      unfolding obj_ok_def by (intro exI[of _ "?front @ [125]"]) simp
  next
    case False
    with rest have c44: "d = 44" by (auto split: if_splits)
    with rest False obtain ds' where q: "skip_ws ds = 34 # ds'"
      by (cases "skip_ws ds") (auto split: if_splits)
    with rest False c44 obtain ps' where o2: "JSONObject m k ds' = Returns (ps', r)"
      and v: "ps = (key, v) # ps'"
      by (auto simp: map_outcome_Returns)
    obtain w3 where w3: "ds = w3 @ 34 # ds'" "\<forall>x\<in>set w3. json_ws x"
      using skip_ws_split[of ds] q by auto
    have "length ds' < length s" unfolding s w3(1) by simp
    from IHobj[OF this o2] obtain b' where b': "ds' = b' @ r" "b' \<noteq> []" "last b' = 125"
      "\<forall>r'. JSONObject m k (b' @ r') = Returns (ps', r')"
      unfolding obj_ok_def by blast
    let ?b = "?front @ 44 # w3 @ 34 # b'"
    have "JSONObject m k (?b @ r') = Returns (ps, r')" for r'
    proof -
      have "skip_ws (w3 @ 34 # b' @ r') = 34 # b' @ r'"
        by (rule skip_ws_to[OF w3(2)]) (simp add: json_ws_def)
      with again[of "w3 @ 34 # b' @ r'"] c44 b'(4) v show ?thesis by simp
    qed
    moreover have "s = ?b @ r" using s c44 w3(1) b'(1) by simp
    ultimately show ?thesis
      unfolding obj_ok_def using b'(2,3) by (intro exI[of _ ?b]) simp
  qed
qed

lemma scan_consumes_all:
  "(\<forall>v r. scan_once m k s = Returns (v, r) \<longrightarrow> scan_ok m k s v r)
   \<and> (\<forall>vs r. JSONArray m k s = Returns (vs, r) \<longrightarrow> arr_ok m k s vs r)
   \<and> (\<forall>ps r. JSONObject m k s = Returns (ps, r) \<longrightarrow> obj_ok m k s ps r)"
proof (induction "length s" arbitrary: s k rule: less_induct)
  case less
  have P: "scan_ok m k s v r" if "scan_once m k s = Returns (v, r)" for v r
    using less.hyps that by (intro scan_once_step[of s m k]) blast+
  have Q: "arr_ok m k s vs r" if "JSONArray m k s = Returns (vs, r)" for vs r
    using less.hyps P that by (intro JSONArray_step[of m k s]) blast+
  have R: "obj_ok m k s ps r" if "JSONObject m k s = Returns (ps, r)" for ps r
    using less.hyps that by (intro JSONObject_step[of s m k]) blast+
  from P Q R show ?case by blast
qed

text \<open>Trimming a text that decodes leaves a text that decodes to the same value, in the
  same interpreter.\<close>

lemma json_loads_py_strip:
  assumes "json_loads py s = Returns j"
  shows "json_loads py (py_strip s) = Returns j"
proof -
  let ?m = "int_max_str_digits py" and ?k = "recursion_depth py"
  from assms obtain r where sc: "scan_once ?m ?k (skip_ws s) = Returns (j, r)"
    and r: "skip_ws r = []"
    by (auto simp: json_loads_def split: outcome.splits if_splits)
  from scan_consumes_all[of ?m ?k "skip_ws s"] sc obtain b where b: "skip_ws s = b @ r" "b \<noteq> []"
    "\<not> py_isspace (hd b)" "\<not> py_isspace (last b)"
    "\<And>r'. delimiter_next r' \<Longrightarrow> scan_once ?m ?k (b @ r') = Returns (j, r')"
    unfolding scan_ok_def by blast
  obtain w where w: "s = w @ skip_ws s" "\<forall>c\<in>set w. json_ws c"
    using skip_ws_split[of s] by blast
  have rws: "\<forall>c\<in>set r. json_ws c"
    using r by (simp add: skip_ws_def dropWhile_eq_Nil_conv)
  have s: "s = w @ b @ r" using w(1) b(1) by simp
  have wsp: "\<forall>c\<in>set w. py_isspace c" "\<forall>c\<in>set r. py_isspace c"
    using w(2) rws json_ws_py_isspace by blast+
  have l: "dropWhile py_isspace s = b @ r"
    unfolding s using wsp(1) b(2,3) by (cases b) (simp_all add: dropWhile_append2)
  have "dropWhile py_isspace (rev (b @ r)) = rev b"
  proof -
    have "dropWhile py_isspace (rev r @ rev b) = dropWhile py_isspace (rev b)"
      by (rule dropWhile_append2) (use wsp(2) in simp)
    also have "\<dots> = rev b"
    proof (cases "rev b")
      case Nil
      with b(2) show ?thesis by simp
    next
      case (Cons a list)
      then have "a = last b" using b(2) by (metis hd_rev list.sel(1))
      with b(4) have "dropWhile py_isspace (a # list) = a # list" by simp
      then show ?thesis by (simp only: Cons)
    qed
    finally show ?thesis by simp
  qed
  with l have strip: "py_strip s = b" by (simp add: py_strip_def)
  have "\<not> json_ws (hd b)" using b(3) json_ws_py_isspace by blast
  then have "skip_ws b = b" by (intro skip_ws_stop) simp
  moreover have "scan_once ?m ?k b = Returns (j, [])"
    using b(5)[of "[]"] by (simp add: delimiter_next_def)
  ultimately show ?thesis by (simp add: json_loads_def strip skip_ws_def)
qed

section \<open>Evaluation of the decoder on concrete texts\<close>

lemmas json_eval = json_loads_def skip_ws_def json_ws_def ustr_def scanstring.simps cons_chunk_def
  BACKSLASH_def decode_uXXXX_def hex_value_def match_number_def match_int_part_def match_frac_def
  match_exp_def is_digit_def digits_value_def scan_constant_def dict_def
  scan_number_def of_option_def is_JInt_def int_digits_def default_limits_def
  scan_once.simps JSONArray.simps JSONObject.simps

lemmas clean_eval = clean_text_def py_strip_def py_isspace_def re_sub_fences.simps(2)
  fence_def fence_json_def ustr_def

section \<open>Request Builder\<close>

lemma save_entry_block_prompt_file:
  "save_entry_block (inp\<lparr>prompt_file := f\<rparr>) h = save_entry_block inp h"
  by (simp add: save_entry_block_def)

lemma analysis_block_prompt_file:
  "analysis_block (inp\<lparr>prompt_file := f\<rparr>) p h = analysis_block inp p h"
  by (auto simp: analysis_block_def split: prod.splits option.splits bool.splits)

text \<open>
  Claim C7, as stated: for the same system prompt and the same journal text the two
  front ends build the same combined prompt. They do not: the form-based front end adds a
  line to the instructions.
\<close>

theorem combined_prompts_differ:
  "cli_combined_prompt (ustr ''Be kind.'') (ustr ''I feel fine'')
     \<noteq> gui_combined_prompt (ustr ''Be kind.'') (ustr ''I feel fine'')"
  by (simp add: cli_combined_prompt_def gui_combined_prompt_def)

text \<open>
  Claim C7, amended: both prompts are the system prompt, then the journal text, then the
  same ``Respond with'' instructions; the prompt of the form-based front end is the prompt
  of the command-line loop followed by a newline and the line asking for JSON with the
  keys \<open>emotion_detected\<close>, \<open>summary\<close>, \<open>advice\<close>; both call the same model with the
  temperature 0.9.
\<close>

theorem gui_prompt_extends_cli_prompt:
  "cli_combined_prompt p t = p @ journal_block t @ RESPOND_WITH
   \<and> gui_combined_prompt p t = cli_combined_prompt p t @ [10] @ FORMAT_AS_JSON
   \<and> temperature (cli_request p t) = 9 / 10
   \<and> temperature (gui_request p t) = 9 / 10
   \<and> model_name (cli_request p t) = model_name (gui_request p t)"
  by (simp add: cli_combined_prompt_def gui_combined_prompt_def cli_request_def gui_request_def)

theorem gui_prompt_extends_cli_prompt_witness:
  "gui_combined_prompt (ustr ''Be kind.'') (ustr ''I feel fine'')
     = cli_combined_prompt (ustr ''Be kind.'') (ustr ''I feel fine'') @ [10] @ FORMAT_AS_JSON
   \<and> temperature (gui_request (ustr ''Be kind.'') (ustr ''I feel fine''))
     = temperature (cli_request (ustr ''Be kind.'') (ustr ''I feel fine''))"
  using gui_prompt_extends_cli_prompt [of "ustr ''Be kind.''" "ustr ''I feel fine''"] by simp

section \<open>Prompt Loader\<close>

text \<open>
  Claim C5. When no file exists at the configured path, each front end's loader returns
  its built-in default string verbatim, and execution continues: the form-based script
  runs as it does on a file that holds the default, and the command-line script prints
  the error and the banner and enters its loop with the default.
\<close>

theorem missing_prompt_file_gives_default:
  "load_system_prompt (Missing e) = (DEFAULT_SYSTEM_PROMPT, [])
   \<and> fst (cli_load_prompt (Missing e)) = CLI_DEFAULT_PROMPT
   \<and> main (inp\<lparr>prompt_file := Missing e\<rparr>) h
       = main (inp\<lparr>prompt_file := Readable DEFAULT_SYSTEM_PROMPT\<rparr>) h
   \<and> cli_script py (Missing e) turns
       = (Print (ustr ''Error: '' @ e) # Print BANNER # fst (cli_loop py CLI_DEFAULT_PROMPT turns),
          snd (cli_loop py CLI_DEFAULT_PROMPT turns))"
  by (simp add: main_def cli_script_def save_entry_block_prompt_file analysis_block_prompt_file
        Let_def split: prod.splits bool.splits)

theorem missing_prompt_file_witness:
  "load_system_prompt (Missing (ustr ''No such file'')) = (DEFAULT_SYSTEM_PROMPT, [])
   \<and> cli_script default_limits (Missing (ustr ''No such file'')) [(ustr ''exit'', \<lambda>req. Inr [])]
       = ([Print (ustr ''Error: No such file''), Print BANNER, Print SESSION_ENDED], Break)"
  using missing_prompt_file_gives_default
          [where e = "ustr ''No such file''" and turns = "[(ustr ''exit'', \<lambda>req. Inr [])]"
             and py = default_limits]
  by (simp add: cli_iteration_def lower_is_exit_def ascii_lower_def ustr_def)

section \<open>Model Client\<close>

text \<open>
  Claim C4 says that each front end catches an error of the remote call and shows it as an
  error string. The form-based front end does (\<open>get_ai_response\<close> returns the string
  \<open>Error: ...\<close>); in the command-line loop the call stands outside every \<open>try\<close>, so the
  exception leaves the loop: nothing is printed and the next line is never read.
\<close>

theorem cli_remote_error_ends_loop:
  "cli_loop py CLI_DEFAULT_PROMPT
     [(ustr ''I feel anxious'', \<lambda>req. Inl (ustr ''429 quota exceeded'')),
      (ustr ''next entry'', \<lambda>req. Inr (ustr ''{}''))]
   = ([], Uncaught (ustr ''429 quota exceeded''))
   \<and> get_ai_response py (\<lambda>req. Inl (ustr ''429 quota exceeded'')) (ustr ''I feel anxious'')
       DEFAULT_SYSTEM_PROMPT
     = (None, Some (ustr ''Error: 429 quota exceeded''))"
  by (simp add: cli_iteration_def lower_is_exit_def get_ai_response_def ustr_def ascii_lower_def)

section \<open>Response Normalizer: decode failure\<close>

lemma has_surrogate_iff: "has_surrogate t \<longleftrightarrow> (\<exists>c\<in>set t. 0xD800 \<le> c \<and> c \<le> 0xDFFF)"
  by (simp add: has_surrogate_def list_ex_iff)

lemma has_surrogate_replicate: "c < 0xD800 \<Longrightarrow> \<not> has_surrogate (replicate n c)"
  by (auto simp: has_surrogate_iff)

text \<open>A text of more opening brackets than the decoder may nest ends the decoding with a
  \<open>RecursionError\<close>, whatever follows the brackets.\<close>

lemma deep_array_raises:
  "k < n \<Longrightarrow> scan_once m k (replicate n 91 @ t) = Raises RecursionError_array"
proof (induction k arbitrary: n)
  case 0
  then obtain n' where "n = Suc n'" by (cases n) auto
  then show ?case by (simp add: scan_once_Cons)
next
  case (Suc k)
  then obtain n' where n: "n = Suc n'" and k: "k < n'" by (cases n) auto
  with Suc.prems obtain n'' where n': "n' = Suc n''" by (cases n') auto
  have "skip_ws (replicate n' 91 @ t) = 91 # replicate n'' 91 @ t"
    by (simp add: n' skip_ws_def json_ws_def)
  moreover have "JSONArray m k (91 # replicate n'' 91 @ t) = Raises RecursionError_array"
    using Suc.IH[OF k] by (simp add: JSONArray.simps[of m k "91 # replicate n'' 91 @ t"] n')
  ultimately show ?case by (simp add: n scan_once_Cons)
qed

lemma clean_text_brackets: "clean_text (replicate n 91) = replicate n 91"
proof -
  have "\<not> sublist fence (replicate n 91)"
  proof
    assume "sublist fence (replicate n 91)"
    then have "set fence \<subseteq> set (replicate n 91)" by (rule set_mono_sublist)
    then show False by (auto simp: fence_unfold)
  qed
  then have "re_sub_fences (replicate n 91) = replicate n 91" by (rule re_sub_fences_id)
  moreover have "py_strip (replicate n 91) = replicate n 91"
    by (rule py_strip_id) (cases n; simp add: py_isspace_def)
  ultimately show ?thesis by (simp add: clean_text_def)
qed

lemma deep_reply_raises:
  "json_loads default_limits (clean_text deep_reply) = Raises RecursionError_array"
  using deep_array_raises[of 1000 1100 4300 "[]"]
  by (simp add: deep_reply_def clean_text_brackets json_loads_def default_limits_def skip_ws_def
        json_ws_def)

text \<open>
  Claim C2, as stated: for every text that is not valid JSON after the fence markers are
  removed and the text is trimmed, the normalizer signals a decode failure and hands on
  the raw text unmodified. A reply of 1100 opening brackets is not valid JSON, but the
  decoder leaves it with a \<open>RecursionError\<close>, which is no decode error:
  \<open>get_ai_response\<close> returns the text \<open>Error: ...\<close> of that exception in place of the raw
  text, and in the command-line loop nothing catches it.
\<close>

theorem deep_nesting_reply_not_returned:
  "json_loads default_limits (clean_text deep_reply) = Raises RecursionError_array
   \<and> get_ai_response default_limits (\<lambda>req. Inr deep_reply) (ustr ''I feel anxious'')
       DEFAULT_SYSTEM_PROMPT
     = (None, Some (ustr ''Error: maximum recursion depth exceeded while decoding a JSON array from a unicode string''))
   \<and> get_ai_response default_limits (\<lambda>req. Inr deep_reply) (ustr ''I feel anxious'')
       DEFAULT_SYSTEM_PROMPT
     \<noteq> (None, Some deep_reply)
   \<and> cli_iteration default_limits CLI_DEFAULT_PROMPT (\<lambda>req. Inr deep_reply)
       (ustr ''I feel anxious'')
     = ([], Uncaught (ustr ''maximum recursion depth exceeded while decoding a JSON array from a unicode string''))"
proof -
  have "69 \<in> set (ustr ''Error: maximum recursion depth exceeded while decoding a JSON array from a unicode string'')"
    by (simp add: ustr_def)
  moreover have "69 \<notin> set deep_reply" by (simp add: deep_reply_def)
  ultimately have ne: "ustr ''Error: maximum recursion depth exceeded while decoding a JSON array from a unicode string''
              \<noteq> deep_reply"
    by metis
  have ex: "\<not> lower_is_exit (ustr ''I feel anxious'')"
    by (simp add: lower_is_exit_def ascii_lower_def ustr_def)
  show ?thesis
    using ne ex by (simp add: get_ai_response_def cli_iteration_def deep_reply_raises ustr_def)
qed

text \<open>
  Claim C2, amended: for every reply on which \<open>json.loads\<close>, after the fence markers are
  removed and the text is trimmed, raises \<open>json.JSONDecodeError\<close>, the normalizer signals
  the failure and hands on the raw text as it was received: \<open>get_ai_response\<close> returns
  \<open>(None, raw_text)\<close>, and the command-line loop prints its warning and then \<open>raw_text\<close>
  (a text that standard output can encode).
\<close>

theorem decode_failure_returns_raw_text:
  assumes "json_loads py (clean_text raw) = JSONDecodeError"
    and "g (gui_request sp ui) = Inr raw"
    and "g (cli_request sp' ui') = Inr raw"
    and "\<not> lower_is_exit ui'"
    and "\<not> has_surrogate raw"
  shows "get_ai_response py g ui sp = (None, Some raw)
       \<and> cli_iteration py sp' g ui' = ([Print UNEXPECTED_RESPONSE, Print raw], Continue)"
  using assms by (simp add: get_ai_response_def cli_iteration_def)

lemma json_loads_prose:
  "json_loads default_limits (clean_text (ustr ''I think you feel okay.'')) = JSONDecodeError"
  by (simp add: clean_eval json_eval)

lemma prose_encodable: "\<not> has_surrogate (ustr ''I think you feel okay.'')"
  by (simp add: has_surrogate_def ustr_def)

lemma not_exit_anxious: "\<not> lower_is_exit (ustr ''I feel anxious'')"
  by (simp add: lower_is_exit_def ascii_lower_def ustr_def)

theorem decode_failure_witness:
  "get_ai_response default_limits (\<lambda>req. Inr (ustr ''I think you feel okay.''))
     (ustr ''I feel anxious'') DEFAULT_SYSTEM_PROMPT
     = (None, Some (ustr ''I think you feel okay.''))
   \<and> cli_iteration default_limits CLI_DEFAULT_PROMPT (\<lambda>req. Inr (ustr ''I think you feel okay.''))
       (ustr ''I feel anxious'')
     = ([Print UNEXPECTED_RESPONSE, Print (ustr ''I think you feel okay.'')], Continue)"
  using decode_failure_returns_raw_text
          [where py = default_limits and raw = "ustr ''I think you feel okay.''"
             and g = "\<lambda>req. Inr (ustr ''I think you feel okay.'')"
             and sp = DEFAULT_SYSTEM_PROMPT and ui = "ustr ''I feel anxious''"
             and sp' = CLI_DEFAULT_PROMPT and ui' = "ustr ''I feel anxious''"]
        json_loads_prose not_exit_anxious prose_encodable
  by simp

section \<open>Response Normalizer: a fenced document\<close>

lemma re_sub_fences_opening: "re_sub_fences (fence_json @ t) = re_sub_fences t"
proof -
  have "prefix fence_json (96 # ([96, 96, 106, 115, 111, 110] @ t))"
    by (simp add: fence_json_unfold)
  then show ?thesis
    using re_sub_fences_drop7[of 96 "[96, 96, 106, 115, 111, 110] @ t"]
    by (simp add: fence_json_unfold)
qed

lemma re_sub_fences_closing:
  "\<not> sublist fence inner \<Longrightarrow> re_sub_fences (inner @ fence) = inner"
proof (induction inner)
  case Nil
  have "\<not> prefix fence_json (96 # [96, 96])" by (simp add: fence_json_unfold)
  moreover have "prefix fence (96 # [96, 96])" by (simp add: fence_unfold)
  ultimately have "re_sub_fences (96 # [96, 96]) = re_sub_fences (drop 3 (96 # [96, 96]))"
    by (rule re_sub_fences_drop3)
  then show ?case by (simp add: fence_unfold)
next
  case (Cons c cs)
  from Cons.prems have np: "\<not> prefix fence (c # cs)" and ns: "\<not> sublist fence cs"
    by (auto simp: sublist_Cons_right)
  show ?case
  proof (cases "prefix fence (c # cs @ fence)")
    case False
    then have "re_sub_fences (c # cs @ fence) = c # re_sub_fences (cs @ fence)"
      by (rule re_sub_fences_keep)
    with Cons.IH[OF ns] show ?thesis by simp
  next
    case True
    from True have c: "c = 96" by (simp add: fence_unfold)
    from True np have short: "cs = [] \<or> cs = [96]"
      by (cases cs; cases "tl cs") (auto simp: fence_unfold c)
    then show ?thesis
    proof
      assume cs: "cs = []"
      have "\<not> prefix fence_json (96 # [96, 96, 96])" by (simp add: fence_json_unfold)
      moreover have "prefix fence (96 # [96, 96, 96])" by (simp add: fence_unfold)
      ultimately have "re_sub_fences (96 # [96, 96, 96]) = re_sub_fences (drop 3 (96 # [96, 96, 96]))"
        by (rule re_sub_fences_drop3)
      moreover have "re_sub_fences [96] = [96]"
        by (simp add: re_sub_fences_keep fence_unfold)
      ultimately show ?thesis by (simp add: c cs fence_unfold)
    next
      assume cs: "cs = [96]"
      have "\<not> prefix fence_json (96 # [96, 96, 96, 96])" by (simp add: fence_json_unfold)
      moreover have "prefix fence (96 # [96, 96, 96, 96])" by (simp add: fence_unfold)
      ultimately have "re_sub_fences (96 # [96, 96, 96, 96])
          = re_sub_fences (drop 3 (96 # [96, 96, 96, 96]))"
        by (rule re_sub_fences_drop3)
      moreover have "re_sub_fences [96, 96] = [96, 96]"
        by (simp add: re_sub_fences_keep fence_unfold)
      ultimately show ?thesis by (simp add: c cs fence_unfold)
    qed
  qed
qed

lemma clean_text_fenced:
  "\<not> sublist fence inner \<Longrightarrow> clean_text (fence_json @ inner @ fence) = py_strip inner"
  by (simp add: clean_text_def re_sub_fences_opening re_sub_fences_closing)

text \<open>
  Claim C1, as stated: for every text that is a Markdown JSON fence around a valid JSON
  document, decoding the cleaned text succeeds with the decoded record of the inner
  content. The substitution removes every occurrence of the marker, also one inside a
  string of the document, and then the decoded record is another one.
\<close>

theorem fenced_json_backticks_decode_differently:
  "json_loads default_limits (ustr ''\<newline>{\"advice\": \"```\"}\<newline>'')
     = Returns (JObj [(ustr ''advice'', JStr (ustr ''```''))])
   \<and> json_loads default_limits
         (clean_text (fence_json @ ustr ''\<newline>{\"advice\": \"```\"}\<newline>'' @ fence))
     = Returns (JObj [(ustr ''advice'', JStr [])])
   \<and> get_ai_response default_limits
         (\<lambda>req. Inr (fence_json @ ustr ''\<newline>{\"advice\": \"```\"}\<newline>'' @ fence))
         (ustr ''I feel anxious'') DEFAULT_SYSTEM_PROMPT
     = (Some (JObj [(ustr ''advice'', JStr [])]), None)
   \<and> JObj [(ustr ''advice'', JStr [])] \<noteq> JObj [(ustr ''advice'', JStr (ustr ''```''))]"
proof -
  have 1: "json_loads default_limits (ustr ''\<newline>{\"advice\": \"```\"}\<newline>'')
     = Returns (JObj [(ustr ''advice'', JStr (ustr ''```''))])"
    by (simp add: json_eval)
  have c: "clean_text (fence_json @ ustr ''\<newline>{\"advice\": \"```\"}\<newline>'' @ fence)
     = ustr ''{\"advice\": \"\"}''"
    by (simp add: clean_eval)
  have 2: "json_loads default_limits (ustr ''{\"advice\": \"\"}'')
     = Returns (JObj [(ustr ''advice'', JStr [])])"
    by (simp add: json_eval)
  have 3: "get_ai_response default_limits
             (\<lambda>req. Inr (fence_json @ ustr ''\<newline>{\"advice\": \"```\"}\<newline>'' @ fence))
             (ustr ''I feel anxious'') DEFAULT_SYSTEM_PROMPT
           = (Some (JObj [(ustr ''advice'', JStr [])]), None)"
    by (simp add: get_ai_response_def c 2)
  have 4: "JObj [(ustr ''advice'', JStr [])] \<noteq> JObj [(ustr ''advice'', JStr (ustr ''```''))]"
    by (simp add: ustr_def)
  show ?thesis unfolding 3 1 using 4 by (simp add: c 2)
qed

text \<open>
  Claim C1, amended: for every text that is the marker \<open>```json\<close>, then a document that
  \<open>json.loads\<close> decodes and in which the three backticks do not occur, then the marker
  \<open>```\<close>, the cleaned text is the document without its surrounding whitespace, strict
  decoding of it succeeds and returns the decoded record of the inner content;
  \<open>get_ai_response\<close> returns that record, and the command-line loop prints it when
  \<open>json.dumps\<close> can encode its nesting.
\<close>

theorem fenced_json_decodes:
  assumes "json_loads py inner = Returns j" and "\<not> sublist fence inner"
    and "g (gui_request sp ui) = Inr (fence_json @ inner @ fence)"
    and "g' (cli_request sp' ui') = Inr (fence_json @ inner @ fence)"
    and "\<not> lower_is_exit ui'" and "json_depth j \<le> encoder_depth py"
  shows "clean_text (fence_json @ inner @ fence) = py_strip inner
       \<and> json_loads py (clean_text (fence_json @ inner @ fence)) = Returns j
       \<and> get_ai_response py g ui sp = (Some j, None)
       \<and> cli_iteration py sp' g' ui' = ([Print GEMINI_INSIGHT, Print_json_dumps j], Continue)"
proof -
  have c: "clean_text (fence_json @ inner @ fence) = py_strip inner"
    using assms(2) by (rule clean_text_fenced)
  have d: "json_loads py (clean_text (fence_json @ inner @ fence)) = Returns j"
    unfolding c using assms(1) by (rule json_loads_py_strip)
  show ?thesis
    using c d assms(3,4,5,6) by (simp add: get_ai_response_def cli_iteration_def)
qed

lemma calm_decodes:
  "json_loads default_limits (ustr ''\<newline>{\"emotion_detected\":\"calm\"}\<newline>'')
     = Returns (JObj [(ustr ''emotion_detected'', JStr (ustr ''calm''))])"
  by (simp add: json_eval)

lemma calm_no_fence: "\<not> sublist fence (ustr ''\<newline>{\"emotion_detected\":\"calm\"}\<newline>'')"
  by (simp add: fence_unfold ustr_def sublist_Cons_right)

lemma calm_stripped:
  "py_strip (ustr ''\<newline>{\"emotion_detected\":\"calm\"}\<newline>'')
     = ustr ''{\"emotion_detected\":\"calm\"}''"
  by (simp add: py_strip_def py_isspace_def ustr_def)

lemma calm_depth:
  "json_depth (JObj [(ustr ''emotion_detected'', JStr (ustr ''calm''))])
     \<le> encoder_depth default_limits"
  by (simp add: default_limits_def)

theorem fenced_json_decodes_witness:
  "clean_text (fence_json @ ustr ''\<newline>{\"emotion_detected\":\"calm\"}\<newline>'' @ fence)
     = ustr ''{\"emotion_detected\":\"calm\"}''
   \<and> get_ai_response default_limits
         (\<lambda>req. Inr (fence_json @ ustr ''\<newline>{\"emotion_detected\":\"calm\"}\<newline>'' @ fence))
         (ustr ''I feel anxious'') DEFAULT_SYSTEM_PROMPT
     = (Some (JObj [(ustr ''emotion_detected'', JStr (ustr ''calm''))]), None)
   \<and> cli_iteration default_limits CLI_DEFAULT_PROMPT
         (\<lambda>req. Inr (fence_json @ ustr ''\<newline>{\"emotion_detected\":\"calm\"}\<newline>'' @ fence))
         (ustr ''I feel anxious'')
     = ([Print GEMINI_INSIGHT,
         Print_json_dumps (JObj [(ustr ''emotion_detected'', JStr (ustr ''calm''))])], Continue)"
  using fenced_json_decodes
          [where py = default_limits
             and inner = "ustr ''\<newline>{\"emotion_detected\":\"calm\"}\<newline>''"
             and j = "JObj [(ustr ''emotion_detected'', JStr (ustr ''calm''))]"
             and g = "\<lambda>req. Inr (fence_json @ ustr ''\<newline>{\"emotion_detected\":\"calm\"}\<newline>'' @ fence)"
             and g' = "\<lambda>req. Inr (fence_json @ ustr ''\<newline>{\"emotion_detected\":\"calm\"}\<newline>'' @ fence)"
             and ui = "ustr ''I feel anxious''" and ui' = "ustr ''I feel anxious''"
             and sp = DEFAULT_SYSTEM_PROMPT and sp' = CLI_DEFAULT_PROMPT]
        calm_decodes calm_no_fence calm_stripped not_exit_anxious calm_depth
  by simp

section \<open>The History Store\<close>

text \<open>The entries a run appends, read off the two blocks.\<close>

lemma py_strip_Nil_iff: "py_strip s = [] \<longleftrightarrow> (\<forall>c\<in>set s. py_isspace c)"
proof -
  let ?t = "dropWhile py_isspace s"
  have "py_strip s = [] \<longleftrightarrow> (\<forall>c\<in>set ?t. py_isspace c)"
    by (simp add: py_strip_def dropWhile_eq_Nil_conv)
  also have "\<dots> \<longleftrightarrow> ?t = []"
  proof
    assume all: "\<forall>c\<in>set ?t. py_isspace c"
    show "?t = []"
    proof (rule ccontr)
      assume ne: "?t \<noteq> []"
      then have "\<not> py_isspace (hd ?t)" by (rule hd_dropWhile)
      moreover from ne have "hd ?t \<in> set ?t" by simp
      ultimately show False using all by blast
    qed
  next
    assume "?t = []"
    then show "\<forall>c\<in>set ?t. py_isspace c" by (simp only: set_simps ball_empty)
  qed
  also have "\<dots> \<longleftrightarrow> (\<forall>c\<in>set s. py_isspace c)"
    by (simp add: dropWhile_eq_Nil_conv)
  finally show ?thesis .
qed

lemma py_strip_nonempty_iff: "py_strip s \<noteq> [] \<longleftrightarrow> (\<exists>c\<in>set s. \<not> py_isspace c)"
  by (simp add: py_strip_Nil_iff)

lemma and_then_ok [simp]: "snd (and_then a b) \<longleftrightarrow> snd a \<and> snd b"
  by (simp add: and_then_def)

lemma and_then_fst_ok: "snd a \<Longrightarrow> fst (and_then a b) = fst a @ fst b"
  by (simp add: and_then_def)

lemma save_entry_block_history:
  "fst (save_entry_block inp h) =
     h @ (if save_btn inp \<and> py_strip (user_input inp) \<noteq> []
          then [\<lparr>timestamp = now_save inp, entry = user_input inp, analysis = None\<rparr>] else [])"
  by (simp add: save_entry_block_def)

lemma analysis_block_history: "fst (analysis_block inp sp h) = h @ analysed inp sp"
  by (auto simp: analysis_block_def analysed_def split: prod.splits option.splits bool.splits)

lemma st_call_returns:
  "\<not> unencodable ev \<Longrightarrow> returns ev \<Longrightarrow> st_call returns ev = ([ev], True)"
  by (simp add: st_call_def)

lemma main_history:
  "fst (main inp h) =
     (if \<not> fst (load_api_key (env_api_key inp) (typed_api_key inp)) then h
      else if clear_history_btn inp then []
      else fst (analysis_block inp (fst (load_system_prompt (prompt_file inp)))
                 (fst (save_entry_block inp h))))"
  by (auto simp: main_def Let_def split: prod.splits bool.splits)

lemma main_end_Rerun:
  "snd (snd (main inp h)) = Rerun \<longleftrightarrow>
     fst (load_api_key (env_api_key inp) (typed_api_key inp)) \<and> clear_history_btn inp"
  by (auto simp: main_def Let_def split: prod.splits bool.splits)

lemma buttons_up_fields [simp]:
  "env_api_key (buttons_up inp) = env_api_key inp"
  "typed_api_key (buttons_up inp) = typed_api_key inp"
  "prompt_file (buttons_up inp) = prompt_file inp"
  "clear_history_btn (buttons_up inp) = False"
  "analyze_btn (buttons_up inp) = False"
  "save_btn (buttons_up inp) = False"
  "user_input (buttons_up inp) = user_input inp"
  "limits (buttons_up inp) = limits inp"
  "st_returns (buttons_up inp) = st_returns inp"
  by (simp_all add: buttons_up_def)

lemma script_run_history:
  "fst (script_run inp h) =
     (if \<not> fst (load_api_key (env_api_key inp) (typed_api_key inp)) then h
      else if clear_history_btn inp then []
      else fst (analysis_block inp (fst (load_system_prompt (prompt_file inp)))
                 (fst (save_entry_block inp h))))"
proof (cases "snd (snd (main inp h)) = Rerun")
  case True
  then have r: "fst (load_api_key (env_api_key inp) (typed_api_key inp))" "clear_history_btn inp"
    by (simp_all add: main_end_Rerun)
  then have "fst (main inp h) = []" by (simp add: main_history)
  moreover from True have "script_run inp h = main (buttons_up inp) (fst (main inp h))"
    by (cases "main inp h") (auto simp: script_run_def)
  ultimately have "fst (script_run inp h) = fst (main (buttons_up inp) [])" by simp
  also have "\<dots> = []"
    using r by (simp add: main_history analysis_block_history save_entry_block_history analysed_def)
  finally show ?thesis using r by simp
next
  case False
  then have "script_run inp h = main inp h"
    by (cases "main inp h") (auto simp: script_run_def split: run_end.splits)
  with False show ?thesis by (simp add: main_history main_end_Rerun)
qed

lemma script_run_appends:
  "fst (script_run inp h) =
     (if clear_action inp then []
      else h @ (if key_ok inp
                then (if save_btn inp \<and> py_strip (user_input inp) \<noteq> []
                      then [\<lparr>timestamp = now_save inp, entry = user_input inp, analysis = None\<rparr>]
                      else [])
                     @ analysed inp (system_prompt_of inp)
                else []))"
  by (simp add: script_run_history clear_action_def key_ok_def system_prompt_of_def
        analysis_block_history save_entry_block_history)

lemma script_run_action:
  assumes "save_action inp \<or> analyze_action inp"
  shows "fst (script_run inp h) = h @ [action_entry inp]"
  using assms
  by (auto simp: script_run_appends save_action_def analyze_action_def clear_action_def
        action_entry_def analysed_def split: option.splits)

lemma session_actions:
  "\<forall>inp\<in>set inps. save_action inp \<or> analyze_action inp \<Longrightarrow>
   session inps h = h @ map action_entry inps"
  by (induction inps arbitrary: h) (simp_all add: script_run_action)

text \<open>
  Claim C3, as stated: from the empty History Store, \<open>N\<close> successful save or analyze
  actions leave a store of length \<open>N\<close>. An analyze action whose reply is decoded need not
  store anything: the empty object \<open>{}\<close> is false for \<open>if response_json:\<close>, the number \<open>5\<close>
  makes \<open>"emotion_detected" in response_json\<close> raise a \<open>TypeError\<close>, and an emotion that
  holds a lone surrogate makes \<open>st.markdown\<close> raise; the last two end the run before the
  entry is appended. After each the store is still empty.
\<close>

theorem decoded_reply_not_stored:
  "get_ai_response (limits empty_object_click) (generate_content empty_object_click)
       (user_input empty_object_click) (system_prompt_of empty_object_click)
     = (Some (JObj []), None)
   \<and> main empty_object_click []
     = ([], [Sidebar_info (ustr ''Entries today: 0''), St_error UNEXPECTED_FORMAT,
             St_expander (ustr ''View raw response'') [St_text None]], Completed)
   \<and> session [empty_object_click] [] = []
   \<and> get_ai_response (limits five_click) (generate_content five_click)
       (user_input five_click) (system_prompt_of five_click)
     = (Some (JInt 5), None)
   \<and> main five_click []
     = ([], [Sidebar_info (ustr ''Entries today: 0''),
             St_markdown (ustr ''<div class=\"response-container\">'')], Raised)
   \<and> session [five_click] [] = []
   \<and> get_ai_response (limits surrogate_click) (generate_content surrogate_click)
       (user_input surrogate_click) (system_prompt_of surrogate_click)
     = (Some (JObj [(ustr ''emotion_detected'', JStr [0xD800])]), None)
   \<and> main surrogate_click []
     = ([], [Sidebar_info (ustr ''Entries today: 0''),
             St_markdown (ustr ''<div class=\"response-container\">'')], Raised)
   \<and> session [surrogate_click] [] = []"
proof -
  have e: "json_loads default_limits (clean_text (ustr ''{}'')) = Returns (JObj [])"
    by (simp add: clean_eval json_eval)
  have f: "json_loads default_limits (clean_text (ustr ''5'')) = Returns (JInt 5)"
    by (simp add: clean_eval json_eval)
  have c: "clean_text surrogate_reply = surrogate_reply"
    by (simp add: surrogate_reply_def clean_eval)
  have s: "json_loads default_limits surrogate_reply
             = Returns (JObj [(ustr ''emotion_detected'', JStr [0xD800])])"
    by (simp add: surrogate_reply_def json_eval)
  have t: "py_strip (ustr ''I feel anxious about tomorrow'') \<noteq> []"
    by (simp add: py_strip_nonempty_iff ustr_def py_isspace_def)
  have k: "load_api_key (Some (ustr ''secret'')) [] = (True, [])"
    by (simp add: load_api_key_def ustr_def)
  have n: "str_nat 0 = ustr ''0''" by (simp add: str_nat.simps ustr_def)
  have g1: "get_ai_response (limits empty_object_click) (generate_content empty_object_click)
       (user_input empty_object_click) (system_prompt_of empty_object_click)
     = (Some (JObj []), None)"
    by (simp add: empty_object_click_def example_inputs_def get_ai_response_def e)
  have g2: "get_ai_response (limits five_click) (generate_content five_click)
       (user_input five_click) (system_prompt_of five_click)
     = (Some (JInt 5), None)"
    by (simp add: five_click_def example_inputs_def get_ai_response_def f)
  have g3: "get_ai_response (limits surrogate_click) (generate_content surrogate_click)
       (user_input surrogate_click) (system_prompt_of surrogate_click)
     = (Some (JObj [(ustr ''emotion_detected'', JStr [0xD800])]), None)"
    by (simp add: surrogate_click_def example_inputs_def get_ai_response_def c s)
  have d2: "display_analysis (\<lambda>ev. True) (JInt 5)
              = ([St_markdown (ustr ''<div class=\"response-container\">'')], False)"
    by (simp add: display_analysis_def show_field_def and_then_def)
  have d3: "display_analysis (\<lambda>ev. True) (JObj [(ustr ''emotion_detected'', JStr [0xD800])])
              = ([St_markdown (ustr ''<div class=\"response-container\">'')], False)"
    by (simp add: display_analysis_def show_field_def and_then_def st_call_def
          value_has_surrogate_def has_surrogate_def ustr_def)
  have m1: "main empty_object_click []
     = ([], [Sidebar_info (ustr ''Entries today: 0''), St_error UNEXPECTED_FORMAT,
             St_expander (ustr ''View raw response'') [St_text None]], Completed)"
    using g1 t k n
    by (simp add: main_def empty_object_click_def example_inputs_def system_prompt_of_def
          save_entry_block_def analysis_block_def unexpected_format_def st_call_def
          journal_history_section_def ustr_def)
  have m2: "main five_click []
     = ([], [Sidebar_info (ustr ''Entries today: 0''),
             St_markdown (ustr ''<div class=\"response-container\">'')], Raised)"
    using g2 t k n d2
    by (simp add: main_def five_click_def example_inputs_def system_prompt_of_def
          save_entry_block_def analysis_block_def ustr_def)
  have m3: "main surrogate_click []
     = ([], [Sidebar_info (ustr ''Entries today: 0''),
             St_markdown (ustr ''<div class=\"response-container\">'')], Raised)"
    using g3 t k n d3
    by (simp add: main_def surrogate_click_def example_inputs_def system_prompt_of_def
          save_entry_block_def analysis_block_def ustr_def)
  have "session [empty_object_click] [] = []"
    using m1 by (simp add: script_run_def)
  moreover have "session [five_click] [] = []"
    using m2 by (simp add: script_run_def)
  moreover have "session [surrogate_click] [] = []"
    using m3 by (simp add: script_run_def)
  ultimately show ?thesis using g1 g2 g3 m1 m2 m3 by simp
qed

text \<open>
  Claim C3, amended: from the empty History Store, a sequence of \<open>N\<close> actions that are each
  a save of a text that is not blank, or an analysis of such a text whose reply decodes
  to a value that is true for \<open>if response_json:\<close> and that the analysis column shows
  without an exception, leaves a store of length \<open>N\<close> whose entries are those of the
  actions in the order of the actions; a clear action leaves a store of length 0; and
  whatever a run does, the store it leaves is empty (after a clear) or the old store with
  entries added at its end.
\<close>

theorem history_store_transitions:
  "((\<forall>inp\<in>set inps. save_action inp \<or> analyze_action inp) \<longrightarrow>
       session inps [] = map action_entry inps \<and> length (session inps []) = length inps)
   \<and> (clear_action inp \<longrightarrow> fst (script_run inp h) = [] \<and> length (fst (script_run inp h)) = 0)
   \<and> (\<exists>new. fst (script_run inp h) = (if clear_action inp then [] else h @ new))"
proof (intro conjI impI)
  assume a: "\<forall>inp\<in>set inps. save_action inp \<or> analyze_action inp"
  from session_actions[OF a, of "[]"] show "session inps [] = map action_entry inps" by simp
  then show "length (session inps []) = length inps" by simp
next
  assume "clear_action inp"
  then show "fst (script_run inp h) = []" by (simp add: script_run_appends)
  then show "length (fst (script_run inp h)) = 0" by simp
next
  show "\<exists>new. fst (script_run inp h) = (if clear_action inp then [] else h @ new)"
    by (simp add: script_run_appends)
qed

section \<open>Blank input\<close>

lemma analysed_nonblank:
  assumes "e \<in> set (analysed inp sp)"
  shows "nonblank e"
proof (cases "analyze_btn inp \<and> py_strip (user_input inp) \<noteq> []")
  case False
  with assms show ?thesis by (simp add: analysed_def)
next
  case True
  with assms have "entry e = user_input inp"
    by (cases "fst (get_ai_response (limits inp) (generate_content inp) (user_input inp) sp)")
       (simp_all add: analysed_def split: if_splits)
  with True show ?thesis by (simp add: nonblank_def py_strip_nonempty_iff)
qed

lemma script_run_nonblank:
  assumes "\<forall>e\<in>set h. nonblank e"
  shows "\<forall>e\<in>set (fst (script_run inp h)). nonblank e"
proof
  fix e
  assume "e \<in> set (fst (script_run inp h))"
  then consider "e \<in> set h"
    | "e = \<lparr>timestamp = now_save inp, entry = user_input inp, analysis = None\<rparr>"
      "py_strip (user_input inp) \<noteq> []"
    | "e \<in> set (analysed inp (system_prompt_of inp))"
    by (auto simp: script_run_appends split: if_splits)
  then show "nonblank e"
  proof cases
    case 1
    with assms show ?thesis by blast
  next
    case 2
    then show ?thesis by (simp add: nonblank_def py_strip_nonempty_iff)
  next
    case 3
    then show ?thesis by (rule analysed_nonblank)
  qed
qed

lemma session_nonblank:
  "\<forall>e\<in>set h. nonblank e \<Longrightarrow> \<forall>e\<in>set (session inps h). nonblank e"
proof (induction inps arbitrary: h)
  case Nil
  then show ?case by simp
next
  case (Cons inp inps)
  from script_run_nonblank[OF Cons.prems] have "\<forall>e\<in>set (fst (script_run inp h)). nonblank e" .
  from Cons.IH[OF this] show ?case by simp
qed

lemma main_events:
  assumes "key_ok inp" "\<not> clear_history_btn inp"
  shows "\<exists>pre post. fst (snd (main inp h)) =
           pre @ snd (save_entry_block inp h)
               @ fst (snd (analysis_block inp (system_prompt_of inp) (fst (save_entry_block inp h))))
               @ post"
proof -
  obtain ev0 where k: "load_api_key (env_api_key inp) (typed_api_key inp) = (True, ev0)"
    using assms(1) by (cases "load_api_key (env_api_key inp) (typed_api_key inp)") (auto simp: key_ok_def)
  obtain sp ev1 where p: "load_system_prompt (prompt_file inp) = (sp, ev1)" by force
  obtain h1 ev3 where s: "save_entry_block inp h = (h1, ev3)" by force
  obtain h2 ev4 ok4 where a: "analysis_block inp sp h1 = (h2, ev4, ok4)"
    by (cases "analysis_block inp sp h1") auto
  obtain ev5 ok5 where j: "journal_history_section (st_returns inp) h2 = (ev5, ok5)" by force
  let ?ev2 = "ev0 @ ev1 @ [Sidebar_info (ustr ''Entries today: '' @ str_nat (length h))]"
  have "fst (snd (main inp h)) = ?ev2 @ ev3 @ ev4 @ (if ok4 then ev5 else [])"
    using assms(2) k p s a j by (simp add: main_def Let_def)
  moreover have "system_prompt_of inp = sp" using p by (simp add: system_prompt_of_def)
  ultimately have "fst (snd (main inp h)) =
           ?ev2 @ snd (save_entry_block inp h)
               @ fst (snd (analysis_block inp (system_prompt_of inp) (fst (save_entry_block inp h))))
               @ (if ok4 then ev5 else [])"
    using s a by simp
  then show ?thesis by blast
qed

text \<open>
  Claim C10. In the form-based front end blank input is never stored: every entry of a
  store reached from the empty one has a character that is not whitespace in its text;
  and a run on an empty or whitespace-only text leaves the store as it is and shows the
  warning of the save action, or of the analyze action, when that button is down.
\<close>

theorem blank_input_never_stored:
  "(\<forall>e\<in>set (session inps []). \<exists>c\<in>set (entry e). \<not> py_isspace c)
   \<and> (key_ok inp \<and> \<not> clear_history_btn inp \<and> py_strip (user_input inp) = [] \<longrightarrow>
        fst (main inp h) = h
        \<and> (save_btn inp \<longrightarrow>
             St_warning (ustr ''Please write something before saving.'')
               \<in> set (fst (snd (main inp h))))
        \<and> (analyze_btn inp \<longrightarrow>
             St_warning (ustr ''Please write something in your journal entry first.'')
               \<in> set (fst (snd (main inp h)))))"
proof (intro conjI impI)
  show "\<forall>e\<in>set (session inps []). \<exists>c\<in>set (entry e). \<not> py_isspace c"
    using session_nonblank[of "[]" inps] by (simp add: nonblank_def)
next
  assume b: "key_ok inp \<and> \<not> clear_history_btn inp \<and> py_strip (user_input inp) = []"
  then show "fst (main inp h) = h"
    by (simp add: main_history key_ok_def analysis_block_history save_entry_block_history
          analysed_def)
  from b main_events[of inp h] obtain pre post where
    ev: "fst (snd (main inp h)) =
           pre @ snd (save_entry_block inp h)
               @ fst (snd (analysis_block inp (system_prompt_of inp) (fst (save_entry_block inp h))))
               @ post"
    by blast
  {
    assume "save_btn inp"
    with b have "snd (save_entry_block inp h)
                   = [St_warning (ustr ''Please write something before saving.'')]"
      by (simp add: save_entry_block_def)
    with ev show "St_warning (ustr ''Please write something before saving.'')
                    \<in> set (fst (snd (main inp h)))" by simp
  }
  {
    assume "analyze_btn inp"
    with b have "fst (snd (analysis_block inp (system_prompt_of inp) (fst (save_entry_block inp h))))
                   = [St_warning (ustr ''Please write something in your journal entry first.'')]"
      by (simp add: analysis_block_def)
    with ev show "St_warning (ustr ''Please write something in your journal entry first.'')
                    \<in> set (fst (snd (main inp h)))" by simp
  }
qed

section \<open>The concrete session: facts\<close>

lemma example_reply_decodes:
  "json_loads default_limits (clean_text example_reply) = Returns example_analysis"
  by (simp add: example_reply_def example_analysis_def clean_eval json_eval)

lemma example_key_ok:
  "key_ok save_click" "key_ok analyze_click" "key_ok clear_click" "key_ok prose_click"
  "key_ok blank_click" "key_ok deep_click" "key_ok example_inputs"
  by (simp_all add: key_ok_def save_click_def analyze_click_def clear_click_def prose_click_def
        blank_click_def deep_click_def example_inputs_def load_api_key_def ustr_def)

lemma example_text_nonblank: "py_strip (ustr ''I feel anxious about tomorrow'') \<noteq> []"
  by (simp add: py_strip_nonempty_iff ustr_def py_isspace_def)

lemma example_analysis_displayed:
  "py_truthy example_analysis \<and> snd (display_analysis (\<lambda>ev. True) example_analysis)"
  by (simp add: example_analysis_def display_analysis_def show_field_def st_call_def
        value_has_surrogate_def has_surrogate_def ustr_def)

lemma example_get_ai_response:
  "get_ai_response default_limits (\<lambda>req. Inr example_reply) u sp = (Some example_analysis, None)"
  by (simp add: get_ai_response_def example_reply_decodes)

lemma save_click_action: "save_action save_click"
  using example_key_ok example_text_nonblank
  by (simp add: save_action_def save_click_def example_inputs_def)

lemma analyze_click_action: "analyze_action analyze_click"
  using example_key_ok example_text_nonblank example_analysis_displayed
  by (simp add: analyze_action_def analyze_click_def example_inputs_def example_get_ai_response)

lemma clear_click_action: "clear_action clear_click"
  using example_key_ok
  by (simp add: clear_action_def clear_click_def example_inputs_def)

lemma action_entries:
  "action_entry save_click = saved_entry" "action_entry analyze_click = analysed_entry"
  by (simp_all add: action_entry_def save_click_def analyze_click_def example_inputs_def
        saved_entry_def analysed_entry_def example_get_ai_response)

theorem history_store_witness:
  "session [save_click, analyze_click] [] = [saved_entry, analysed_entry]
   \<and> length (session [save_click, analyze_click] []) = 2
   \<and> fst (script_run clear_click [saved_entry, analysed_entry]) = []"
  using history_store_transitions
          [of "[save_click, analyze_click]" clear_click "[saved_entry, analysed_entry]"]
        save_click_action analyze_click_action clear_click_action action_entries
  by simp

lemma example_session: "session [save_click, analyze_click] [] = [saved_entry, analysed_entry]"
  using session_actions[of "[save_click, analyze_click]" "[]"]
        save_click_action analyze_click_action action_entries
  by simp

lemma blank_click_facts:
  "\<not> clear_history_btn blank_click" "save_btn blank_click"
  "py_strip (user_input blank_click) = []"
  by (simp_all add: blank_click_def example_inputs_def py_strip_Nil_iff ustr_def py_isspace_def)

theorem blank_input_witness:
  "(\<exists>c\<in>set (entry saved_entry). \<not> py_isspace c)
   \<and> (\<exists>c\<in>set (entry analysed_entry). \<not> py_isspace c)
   \<and> fst (main blank_click [saved_entry]) = [saved_entry]
   \<and> St_warning (ustr ''Please write something before saving.'')
        \<in> set (fst (snd (main blank_click [saved_entry])))"
  using blank_input_never_stored
          [of "[save_click, analyze_click]" blank_click "[saved_entry]"]
        example_session example_key_ok blank_click_facts
  by simp

section \<open>A reply that does not decode\<close>

text \<open>
  Claim C6, as stated: for every reply that fails JSON decoding after normalization, the
  system shows the raw text under the unexpected-format indicator and appends nothing. A
  reply of 1100 opening brackets fails decoding with a \<open>RecursionError\<close>: the form-based
  front end shows the indicator, but under it the text \<open>Error: ...\<close> of the exception
  and not the raw text; in the command-line loop nothing catches the exception, nothing
  is printed and the next line is never read.
\<close>

theorem deep_nesting_reply_not_shown:
  "analysis_block deep_click (system_prompt_of deep_click) [saved_entry]
     = ([saved_entry],
        [St_error UNEXPECTED_FORMAT,
         St_expander (ustr ''View raw response'')
           [St_text (Some (ustr ''Error: maximum recursion depth exceeded while decoding a JSON array from a unicode string''))]],
        True)
   \<and> ustr ''Error: maximum recursion depth exceeded while decoding a JSON array from a unicode string''
       \<noteq> deep_reply
   \<and> cli_loop default_limits CLI_DEFAULT_PROMPT
       [(ustr ''I feel anxious'', \<lambda>req. Inr deep_reply),
        (ustr ''next entry'', \<lambda>req. Inr (ustr ''{}''))]
     = ([], Uncaught (ustr ''maximum recursion depth exceeded while decoding a JSON array from a unicode string''))"
proof -
  have "69 \<in> set (ustr ''Error: maximum recursion depth exceeded while decoding a JSON array from a unicode string'')"
    by (simp add: ustr_def)
  moreover have "69 \<notin> set deep_reply" by (simp add: deep_reply_def)
  ultimately have ne: "ustr ''Error: maximum recursion depth exceeded while decoding a JSON array from a unicode string''
              \<noteq> deep_reply"
    by metis
  have g: "get_ai_response default_limits (\<lambda>req. Inr deep_reply) u sp
       = (None, Some (ustr ''Error: maximum recursion depth exceeded while decoding a JSON array from a unicode string''))"
    for u sp
    by (simp add: get_ai_response_def deep_reply_raises ustr_def)
  have a: "analysis_block deep_click (system_prompt_of deep_click) [saved_entry]
     = ([saved_entry],
        [St_error UNEXPECTED_FORMAT,
         St_expander (ustr ''View raw response'')
           [St_text (Some (ustr ''Error: maximum recursion depth exceeded while decoding a JSON array from a unicode string''))]],
        True)"
    using example_text_nonblank g
    by (simp add: analysis_block_def deep_click_def example_inputs_def unexpected_format_def
          st_call_def has_surrogate_def)
       (simp add: ustr_def)
  have c: "cli_loop default_limits CLI_DEFAULT_PROMPT
       [(ustr ''I feel anxious'', \<lambda>req. Inr deep_reply),
        (ustr ''next entry'', \<lambda>req. Inr (ustr ''{}''))]
     = ([], Uncaught (ustr ''maximum recursion depth exceeded while decoding a JSON array from a unicode string''))"
    using not_exit_anxious by (simp add: cli_iteration_def deep_reply_raises ustr_def)
  from a ne c show ?thesis by simp
qed

text \<open>
  Claim C6, amended. For every reply that \<open>json.loads\<close> does not decode after
  normalization, the analyze action of the form-based front end appends nothing: the
  store after the run is the store after the Save Entry block. When the decoding ends in
  \<open>json.JSONDecodeError\<close> and the raw text can be shown (it holds no lone surrogate and
  Streamlit does not raise on it), the front end shows \<open>Unexpected response format\<close> as
  an error with the raw text under it, and the command-line loop prints its warning and
  the raw text, and goes on.
\<close>

theorem decode_failure_shown_not_stored:
  assumes "key_ok inp" and "\<not> clear_history_btn inp" and "analyze_btn inp"
    and "py_strip (user_input inp) \<noteq> []"
    and "generate_content inp (gui_request (system_prompt_of inp) (user_input inp)) = Inr raw"
    and "\<forall>j. json_loads (limits inp) (clean_text raw) \<noteq> Returns j"
  shows "fst (main inp h) = fst (save_entry_block inp h)
       \<and> (json_loads (limits inp) (clean_text raw) = JSONDecodeError
            \<and> \<not> has_surrogate raw \<and> st_returns inp (St_text (Some raw)) \<longrightarrow>
          analysis_block inp (system_prompt_of inp) h1
            = (h1, [St_error UNEXPECTED_FORMAT,
                    St_expander (ustr ''View raw response'') [St_text (Some raw)]], True)
          \<and> (\<exists>pre post. fst (snd (main inp h)) =
                pre @ [St_error UNEXPECTED_FORMAT,
                       St_expander (ustr ''View raw response'') [St_text (Some raw)]] @ post)
          \<and> (\<not> lower_is_exit ui \<and> g (cli_request sp ui) = Inr raw \<longrightarrow>
               cli_iteration (limits inp) sp g ui
                 = ([Print UNEXPECTED_RESPONSE, Print raw], Continue)))"
proof (intro conjI impI)
  have "fst (get_ai_response (limits inp) (generate_content inp) (user_input inp)
               (system_prompt_of inp)) = None"
    using assms(5,6) by (simp add: get_ai_response_def split: outcome.splits)
  then have "analysed inp (system_prompt_of inp) = []"
    by (simp add: analysed_def)
  then show "fst (main inp h) = fst (save_entry_block inp h)"
    using assms(1,2)
    by (simp add: main_history key_ok_def system_prompt_of_def analysis_block_history)
next
  assume d: "json_loads (limits inp) (clean_text raw) = JSONDecodeError
            \<and> \<not> has_surrogate raw \<and> st_returns inp (St_text (Some raw))"
  have r: "get_ai_response (limits inp) (generate_content inp) (user_input inp)
             (system_prompt_of inp) = (None, Some raw)"
    using assms(5) d by (simp add: get_ai_response_def)
  have a: "\<And>h1. analysis_block inp (system_prompt_of inp) h1
           = (h1, [St_error UNEXPECTED_FORMAT,
                   St_expander (ustr ''View raw response'') [St_text (Some raw)]], True)"
    using assms(3,4) r d by (simp add: analysis_block_def unexpected_format_def st_call_def)
  show "analysis_block inp (system_prompt_of inp) h1
           = (h1, [St_error UNEXPECTED_FORMAT,
                   St_expander (ustr ''View raw response'') [St_text (Some raw)]], True)"
    by (rule a)
  from main_events[OF assms(1,2), of h] a
  show "\<exists>pre post. fst (snd (main inp h)) =
             pre @ [St_error UNEXPECTED_FORMAT,
                    St_expander (ustr ''View raw response'') [St_text (Some raw)]] @ post"
    by (metis append.assoc fst_conv snd_conv)
  assume "\<not> lower_is_exit ui \<and> g (cli_request sp ui) = Inr raw"
  with d show "cli_iteration (limits inp) sp g ui
                 = ([Print UNEXPECTED_RESPONSE, Print raw], Continue)"
    by (simp add: cli_iteration_def)
qed

lemma prose_click_facts:
  "\<not> clear_history_btn prose_click" "analyze_btn prose_click" "\<not> save_btn prose_click"
  "py_strip (user_input prose_click) \<noteq> []"
  "generate_content prose_click (gui_request (system_prompt_of prose_click) (user_input prose_click))
     = Inr (ustr ''I think you feel okay.'')"
  "limits prose_click = default_limits"
  "st_returns prose_click (St_text (Some (ustr ''I think you feel okay.'')))"
  using example_text_nonblank by (simp_all add: prose_click_def example_inputs_def)

theorem decode_failure_shown_witness:
  "analysis_block prose_click (system_prompt_of prose_click) [saved_entry]
     = ([saved_entry],
        [St_error UNEXPECTED_FORMAT,
         St_expander (ustr ''View raw response'') [St_text (Some (ustr ''I think you feel okay.''))]],
        True)
   \<and> fst (main prose_click [saved_entry]) = [saved_entry]
   \<and> cli_iteration default_limits CLI_DEFAULT_PROMPT (\<lambda>req. Inr (ustr ''I think you feel okay.''))
       (ustr ''I feel anxious'')
     = ([Print UNEXPECTED_RESPONSE, Print (ustr ''I think you feel okay.'')], Continue)"
  using decode_failure_shown_not_stored
          [where inp = prose_click and raw = "ustr ''I think you feel okay.''"
             and ui = "ustr ''I feel anxious''" and sp = CLI_DEFAULT_PROMPT
             and g = "\<lambda>req. Inr (ustr ''I think you feel okay.'')"
             and ?h1.0 = "[saved_entry]" and h = "[saved_entry]"]
        example_key_ok prose_click_facts json_loads_prose not_exit_anxious prose_encodable
  by (simp add: save_entry_block_def)

section \<open>The Journal History section\<close>

lemma history_loop_completed:
  "snd (history_loop returns len ies) \<Longrightarrow>
   fst (history_loop returns len ies)
     = map (\<lambda>(i, e). St_expander (entry_label (len - i) e) (fst (entry_body returns e))) ies"
proof (induction ies)
  case Nil
  then show ?case by simp
next
  case (Cons ie ies)
  obtain i e where ie: "ie = (i, e)" by (cases ie)
  obtain body ok where b: "entry_body returns e = (body, ok)" by force
  from Cons.prems ie b have ok: "ok" and rest: "snd (history_loop returns len ies)"
    and lab: "snd (st_call returns (St_expander (entry_label (len - i) e) []))"
    by (auto simp: and_then_def split: if_splits)
  from Cons.IH[OF rest] ok lab b show ?case
    by (simp add: ie and_then_def)
qed

lemma enumerate_rev_labels:
  "map (\<lambda>(i, e). g (m + length xs - i) e) (enumerate m (rev xs))
     = rev (map (\<lambda>(k, e). g (Suc k) e) (enumerate 0 xs))"
proof (induction xs arbitrary: m rule: rev_induct)
  case Nil
  then show ?case by simp
next
  case (snoc x xs)
  have "map (\<lambda>(i, e). g (m + length (xs @ [x]) - i) e) (enumerate (Suc m) (rev xs))
          = map (\<lambda>(i, e). g (Suc m + length xs - i) e) (enumerate (Suc m) (rev xs))"
    by simp
  also have "\<dots> = rev (map (\<lambda>(k, e). g (Suc k) e) (enumerate 0 xs))"
    by (rule snoc.IH)
  finally show ?case by (simp add: enumerate_append_eq)
qed

lemma journal_history_section_completed:
  assumes "snd (journal_history_section returns h)" and "h \<noteq> []"
  shows "fst (journal_history_section returns h) =
           [St_markdown (ustr ''---''), St_subheader ([0x1F4DA] @ ustr '' Journal History'')]
           @ rev (map (\<lambda>(k, e). St_expander (entry_label (Suc k) e) (fst (entry_body returns e)))
                    (enumerate 0 h))"
proof -
  from assms have ok: "snd (history_loop returns (length h) (enumerate 0 (rev h)))"
    by (simp add: journal_history_section_def)
  from history_loop_completed[OF ok]
  have "fst (history_loop returns (length h) (enumerate 0 (rev h)))
          = map (\<lambda>(i, e). St_expander (entry_label (0 + length h - i) e) (fst (entry_body returns e)))
              (enumerate 0 (rev h))"
    by simp
  also have "\<dots> = rev (map (\<lambda>(k, e). St_expander (entry_label (Suc k) e) (fst (entry_body returns e)))
                     (enumerate 0 h))"
    by (rule enumerate_rev_labels[where g = "\<lambda>n e. St_expander (entry_label n e) (fst (entry_body returns e))"])
  finally show ?thesis using assms(2) ok
    by (simp add: journal_history_section_def and_then_def)
qed

lemma main_Completed:
  assumes "main inp h = (h', shown, Completed)"
  shows "\<exists>before. shown = before @ fst (journal_history_section (st_returns inp) h')
                 \<and> snd (journal_history_section (st_returns inp) h')"
proof -
  obtain k ev0 where k: "load_api_key (env_api_key inp) (typed_api_key inp) = (k, ev0)" by force
  obtain sp ev1 where p: "load_system_prompt (prompt_file inp) = (sp, ev1)" by force
  obtain h1 ev3 where s: "save_entry_block inp h = (h1, ev3)" by force
  obtain h2 ev4 ok4 where a: "analysis_block inp sp h1 = (h2, ev4, ok4)"
    by (cases "analysis_block inp sp h1") auto
  obtain ev5 ok5 where j: "journal_history_section (st_returns inp) h2 = (ev5, ok5)" by force
  let ?ev2 = "ev0 @ ev1 @ [Sidebar_info (ustr ''Entries today: '' @ str_nat (length h))]"
  from assms k p s a j have "h' = h2 \<and> shown = (?ev2 @ ev3 @ ev4) @ ev5 \<and> ok5"
    by (cases k; cases "clear_history_btn inp"; cases ok4; cases ok5)
       (simp_all add: main_def Let_def)
  with j show ?thesis by (metis fst_conv snd_conv)
qed

text \<open>
  Claim C8, as stated: for every non-empty History Store the UI lists the entries, newest
  first, each under its timestamp. The listing stands at the end of the script, and a run
  need not get there: without a key the script returns before it, and an exception in the
  analysis column (here the \<open>TypeError\<close> for the reply \<open>5\<close>) ends the run before it. In
  both runs the store holds an entry and no entry is listed.
\<close>

theorem nonempty_store_not_listed:
  "main no_key_run [saved_entry]
     = ([saved_entry],
        [Sidebar_warning ([0x26A0, 0xFE0F] @
           ustr '' Gemini API key not found in environment variables''),
         St_error PROVIDE_KEY, St_info GET_KEY],
        Returned)
   \<and> main five_click [saved_entry]
     = ([saved_entry],
        [Sidebar_info (ustr ''Entries today: 1''),
         St_markdown (ustr ''<div class=\"response-container\">'')],
        Raised)"
proof -
  have f: "json_loads default_limits (clean_text (ustr ''5'')) = Returns (JInt 5)"
    by (simp add: clean_eval json_eval)
  have t: "py_strip (ustr ''I feel anxious about tomorrow'') \<noteq> []"
    by (rule example_text_nonblank)
  have k: "load_api_key (Some (ustr ''secret'')) [] = (True, [])"
    by (simp add: load_api_key_def ustr_def)
  have n: "str_nat (Suc 0) = ustr ''1''" by (simp add: str_nat.simps ustr_def)
  have d: "display_analysis (\<lambda>ev. True) (JInt 5)
              = ([St_markdown (ustr ''<div class=\"response-container\">'')], False)"
    by (simp add: display_analysis_def show_field_def and_then_def)
  have 1: "main no_key_run [saved_entry]
     = ([saved_entry],
        [Sidebar_warning ([0x26A0, 0xFE0F] @
           ustr '' Gemini API key not found in environment variables''),
         St_error PROVIDE_KEY, St_info GET_KEY],
        Returned)"
    by (simp add: main_def no_key_run_def example_inputs_def load_api_key_def)
  have 2: "main five_click [saved_entry]
     = ([saved_entry],
        [Sidebar_info (ustr ''Entries today: 1''),
         St_markdown (ustr ''<div class=\"response-container\">'')],
        Raised)"
    using f t k n d
    by (simp add: main_def five_click_def example_inputs_def get_ai_response_def
          save_entry_block_def analysis_block_def ustr_def)
  from 1 2 show ?thesis by simp
qed

text \<open>
  Claim C8, amended. Every run of the script that reaches its last line and leaves a
  non-empty History Store ends by listing that store: after the rule and the heading
  \<open>Journal History\<close>, one expander for every entry, newest first; the expander of the
  entry at position \<open>k\<close> of the store (from 0) is labelled \<open>Entry k+1 - timestamp\<close> with
  the entry's stored timestamp.
\<close>

theorem history_listed_newest_first:
  assumes "main inp h = (h', shown, Completed)" and "h' \<noteq> []"
  shows "\<exists>before. shown = before
           @ [St_markdown (ustr ''---''), St_subheader ([0x1F4DA] @ ustr '' Journal History'')]
           @ rev (map (\<lambda>(k, e).
                         St_expander
                           ([0x1F4C5] @ ustr '' Entry '' @ str_nat (Suc k) @ ustr '' - '' @ timestamp e)
                           (fst (entry_body (st_returns inp) e)))
                    (enumerate 0 h'))"
proof -
  from main_Completed[OF assms(1)] obtain before where
    b: "shown = before @ fst (journal_history_section (st_returns inp) h')"
    and ok: "snd (journal_history_section (st_returns inp) h')" by blast
  from journal_history_section_completed[OF ok assms(2)] b
  show ?thesis by (auto simp: entry_label_def)
qed

lemma str_nat_digit: "n < 10 \<Longrightarrow> str_nat n = [48 + n]"
  by (simp add: str_nat.simps)

lemma example_rerun:
  "main example_inputs [saved_entry, analysed_entry]
     = ([saved_entry, analysed_entry],
        [Sidebar_info (ustr ''Entries today: 2''),
         St_markdown (ustr ''---''), St_subheader ([0x1F4DA] @ ustr '' Journal History''),
         St_expander ([0x1F4C5] @ ustr '' Entry 2 - 2025-01-01 10:00:07'')
           (fst (entry_body (\<lambda>ev. True) analysed_entry)),
         St_expander ([0x1F4C5] @ ustr '' Entry 1 - 2025-01-01 10:00:00'')
           (fst (entry_body (\<lambda>ev. True) saved_entry))],
        Completed)"
proof -
  have k: "load_api_key (Some (ustr ''secret'')) [] = (True, [])"
    by (simp add: load_api_key_def ustr_def)
  have b1: "snd (entry_body (\<lambda>ev. True) saved_entry)"
    by (simp add: entry_body_def entry_analysis_def saved_entry_def st_call_def
          has_surrogate_def ustr_def)
  have b2: "snd (entry_body (\<lambda>ev. True) analysed_entry)"
    by (simp add: entry_body_def entry_analysis_def analysed_entry_def example_analysis_def
          show_field_def st_call_def value_has_surrogate_def has_surrogate_def ustr_def)
  have lab: "entry_label (Suc 0) saved_entry = [0x1F4C5] @ ustr '' Entry 1 - 2025-01-01 10:00:00''"
    "entry_label (Suc (Suc 0)) analysed_entry
       = [0x1F4C5] @ ustr '' Entry 2 - 2025-01-01 10:00:07''"
    by (simp_all add: entry_label_def saved_entry_def analysed_entry_def str_nat_digit ustr_def)
  have l1: "snd (st_call (\<lambda>ev. True)
                   (St_expander ([0x1F4C5] @ ustr '' Entry 1 - 2025-01-01 10:00:00'') []))"
    by (simp add: st_call_def has_surrogate_def ustr_def)
  have l2: "snd (st_call (\<lambda>ev. True)
                   (St_expander ([0x1F4C5] @ ustr '' Entry 2 - 2025-01-01 10:00:07'') []))"
    by (simp add: st_call_def has_surrogate_def ustr_def)
  from b1 obtain body1 where e1: "entry_body (\<lambda>ev. True) saved_entry = (body1, True)"
    by (cases "entry_body (\<lambda>ev. True) saved_entry") auto
  from b2 obtain body2 where e2: "entry_body (\<lambda>ev. True) analysed_entry = (body2, True)"
    by (cases "entry_body (\<lambda>ev. True) analysed_entry") auto
  have j: "journal_history_section (\<lambda>ev. True) [saved_entry, analysed_entry]
     = ([St_markdown (ustr ''---''), St_subheader ([0x1F4DA] @ ustr '' Journal History''),
         St_expander ([0x1F4C5] @ ustr '' Entry 2 - 2025-01-01 10:00:07'')
           (fst (entry_body (\<lambda>ev. True) analysed_entry)),
         St_expander ([0x1F4C5] @ ustr '' Entry 1 - 2025-01-01 10:00:00'')
           (fst (entry_body (\<lambda>ev. True) saved_entry))], True)"
    using l1 l2
    by (simp add: journal_history_section_def enumerate_eq_zip and_then_def lab e1 e2)
  have n: "str_nat (Suc (Suc 0)) = ustr ''2''" by (simp add: str_nat_digit ustr_def)
  show ?thesis
    using k j n
    by (simp add: main_def example_inputs_def save_entry_block_def analysis_block_def ustr_def)
qed

theorem history_listing_witness:
  "\<exists>before. fst (snd (main example_inputs [saved_entry, analysed_entry])) = before
     @ [St_markdown (ustr ''---''), St_subheader ([0x1F4DA] @ ustr '' Journal History''),
        St_expander ([0x1F4C5] @ ustr '' Entry 2 - 2025-01-01 10:00:07'')
          (fst (entry_body (\<lambda>ev. True) analysed_entry)),
        St_expander ([0x1F4C5] @ ustr '' Entry 1 - 2025-01-01 10:00:00'')
          (fst (entry_body (\<lambda>ev. True) saved_entry))]"
  using history_listed_newest_first
          [where inp = example_inputs and h = "[saved_entry, analysed_entry]"
             and h' = "[saved_entry, analysed_entry]"
             and shown = "fst (snd (main example_inputs [saved_entry, analysed_entry]))"]
        example_rerun
  by (simp add: example_inputs_def saved_entry_def analysed_entry_def str_nat_digit ustr_def)

end
